theory Spec2Isabelle
  imports Main
begin

section \<open>The data of the game\<close>

text \<open>
  The controller is the class \<open>BugTap\<close> of \<open>bugTap/BugTap.ts\<close>. It extends the engine's
  \<open>Game\<close>, and uses the engine's \<open>getRandomNumber\<close>, \<open>addToStore\<close> and \<open>clearStore\<close>
  and the classes \<open>Bug\<close>, \<open>Food\<close>, \<open>Point\<close> and their managers. The sources of these
  are missing, so each is modelled from the specification, and says so.
\<close>

text \<open>Modelled from the spec: the run mode of the host, \<open>{NotStarted, Running, Paused}\<close>
  (the class \<open>Game\<close> is missing).\<close>

datatype run_mode = NotStarted | Running | Paused

text \<open>Modelled from the spec: a bounding box is a position and a size (the engine's
  class is missing). The controller reads \<open>boundingBox.x\<close> and \<open>boundingBox.y\<close>.\<close>

record bounding_box =
  box_x :: int
  box_y :: int
  box_width :: int
  box_height :: int

text \<open>Modelled from the spec: the hit test is point-in-rectangle containment
  (\<open>isOverlappingPoint\<close> is missing). No property below depends on how the border
  is treated.\<close>

definition isOverlappingPoint :: "bounding_box \<Rightarrow> int \<Rightarrow> int \<Rightarrow> bool" where
  "isOverlappingPoint b px py \<longleftrightarrow>
     box_x b \<le> px \<and> px \<le> box_x b + box_width b \<and>
     box_y b \<le> py \<and> py \<le> box_y b + box_height b"

text \<open>Modelled from the spec: a bug has a bounding box, a point value and an alive
  flag (the class \<open>Bug\<close> is missing).\<close>

record bug =
  boundingBox :: bounding_box
  points :: int
  alive :: bool

text \<open>Modelled from the spec: a food entity has a position, fixed once it is made
  (the class \<open>Food\<close> is missing).\<close>

datatype food_item = Food int int

text \<open>The entities of the host's active collection. \<open>PointObj p x y\<close> is
  \<open>new Point(canvas, context, p, x, y)\<close>, the floating score marker.\<close>

datatype game_object =
    CursorObj
  | FoodObj food_item
  | BugObj bug
  | PointObj int int int

text \<open>The two timer callbacks and the calls made on the host.\<close>

datatype callback = SpawnBugRandomly | StartTime

datatype host_call = CallStart | CallPause | CallResume

text \<open>
  The state: the fields of the class (\<open>_time\<close>, \<open>_score\<close>, \<open>_food\<close>), the state of the
  host (\<open>mode\<close>, \<open>gameObjects\<close>), and what the controller does to its surroundings:
  the persistent store, as the writes made since it was last cleared, in order; the
  number of times the sound was played; the timeouts requested through \<open>setTimeout\<close>,
  in order; the calls made on the host, in order; and the page's elements the handlers
  write. The elements \<open>score\<close> and \<open>time\<close> are taken to exist, as the non-null
  assertions of the source say.
\<close>

record game =
  mode :: run_mode
  gameObjects :: "game_object list"
  hostCalls :: "host_call list"
  time :: nat
  score :: int
  food :: "food_item list"
  store :: "(string \<times> string) list"
  sounds :: nat
  timeouts :: "(callback \<times> nat) list"
  scoreText :: string
  timeText :: string
  buttonSrc :: string
  welcomeHidden :: bool
  gameHidden :: bool

section \<open>The host, the store and the random numbers\<close>

text \<open>Modelled from the spec: \<open>isRunning\<close>, \<open>isPaused\<close> and the transitions
  \<open>NotStarted --start()--> Running\<close> and \<open>Running <--pause()/resume()--> Paused\<close> of the
  missing class \<open>Game\<close>. The spec defines no other transition; the model leaves the mode
  as it is there, and records every call.\<close>

definition isRunning :: "game \<Rightarrow> bool" where
  "isRunning g \<longleftrightarrow> mode g = Running"

definition isPaused :: "game \<Rightarrow> bool" where
  "isPaused g \<longleftrightarrow> mode g = Paused"

definition start :: "game \<Rightarrow> game" where
  "start g = g\<lparr>mode := (if mode g = NotStarted then Running else mode g),
               hostCalls := hostCalls g @ [CallStart]\<rparr>"

definition pause :: "game \<Rightarrow> game" where
  "pause g = g\<lparr>mode := (if mode g = Running then Paused else mode g),
               hostCalls := hostCalls g @ [CallPause]\<rparr>"

definition resume :: "game \<Rightarrow> game" where
  "resume g = g\<lparr>mode := (if mode g = Paused then Running else mode g),
                hostCalls := hostCalls g @ [CallResume]\<rparr>"

text \<open>Modelled from the spec: \<open>addEntity\<close> and \<open>addEntities\<close> append to the ordered
  collection of the host.\<close>

definition addGameObject :: "game_object \<Rightarrow> game \<Rightarrow> game" where
  "addGameObject ob g = g\<lparr>gameObjects := gameObjects g @ [ob]\<rparr>"

definition addGameObjects :: "game_object list \<Rightarrow> game \<Rightarrow> game" where
  "addGameObjects obs g = g\<lparr>gameObjects := gameObjects g @ obs\<rparr>"

text \<open>Modelled from the spec: \<open>write(key, value)\<close> and \<open>clear()\<close> of the persistent
  store (\<open>addToStore\<close> and \<open>clearStore\<close> are missing).\<close>

definition addToStore :: "string \<Rightarrow> string \<Rightarrow> game \<Rightarrow> game" where
  "addToStore k v g = g\<lparr>store := store g @ [(k, v)]\<rparr>"

definition clearStore :: "game \<Rightarrow> game" where
  "clearStore g = g\<lparr>store := []\<rparr>"

text \<open>Modelled from the spec: \<open>getRandomNumber lo hi\<close> is an integer of the inclusive
  range (the function is missing). The draw \<open>r\<close> stands for the random source.\<close>

definition getRandomNumber :: "nat \<Rightarrow> nat \<Rightarrow> nat \<Rightarrow> nat" where
  "getRandomNumber lo hi r = lo + r mod (hi - lo + 1)"

text \<open>Modelled from the spec: \<open>FoodManager.generate(count)\<close> makes \<open>count\<close> food
  entities and \<open>BugManager.spawn\<close> makes a bug that is alive. Where the food lies, and
  the box and the point value of a bug, are the manager's choice: \<open>place\<close> and \<open>mk\<close>.\<close>

definition generate :: "(nat \<Rightarrow> food_item) \<Rightarrow> nat \<Rightarrow> food_item list" where
  "generate place n = map place [0..<n]"

definition spawn :: "bounding_box \<times> int \<Rightarrow> bug" where
  "spawn a = \<lparr>boundingBox = fst a, points = snd a, alive = True\<rparr>"

section \<open>Numbers as text\<close>

text \<open>The decimal text of a number, as a template literal and \<open>toString\<close> give it for
  an integer.\<close>

definition digit :: "nat \<Rightarrow> char" where
  "digit d = ''0123456789'' ! d"

fun string_of_nat :: "nat \<Rightarrow> string" where
  "string_of_nat n =
     (if n < 10 then [digit n] else string_of_nat (n div 10) @ [digit (n mod 10)])"

declare string_of_nat.simps [simp del]

definition string_of_int :: "int \<Rightarrow> string" where
  "string_of_int i =
     (if i < 0 then CHR ''-'' # string_of_nat (nat (- i)) else string_of_nat (nat i))"

section \<open>The controller of BugTap.ts\<close>

definition AMOUNT_OF_FOOD :: nat where "AMOUNT_OF_FOOD = 10"
definition MIN_BUGS_TO_SPAWN :: nat where "MIN_BUGS_TO_SPAWN = 1"
definition MAX_BUGS_TO_SPAWN :: nat where "MAX_BUGS_TO_SPAWN = 3"
definition MIN_SPAWN_INTERVAL :: nat where "MIN_SPAWN_INTERVAL = 800"
definition MAX_SPAWN_INTERVAL :: nat where "MAX_SPAWN_INTERVAL = 1500"

text \<open>
  The constructor. \<open>env\<close> is what it finds: the page and the store that earlier sessions
  left. The host starts not started, with no entity; the fields start as the class
  declares them; the cursor is added; the store is cleared.
\<close>

definition BugTap_new :: "game \<Rightarrow> game" where
  "BugTap_new env =
     clearStore (addGameObject CursorObj
       (env\<lparr>mode := NotStarted, gameObjects := [], hostCalls := [],
            time := 0, score := 0, food := [], sounds := 0, timeouts := []\<rparr>))"

text \<open>\<open>_initFood\<close> also hands the food to the bug manager (\<open>receiveFood\<close>); the
  manager keeps it for itself, and the controller never reads it back.\<close>

definition initFood :: "(nat \<Rightarrow> food_item) \<Rightarrow> game \<Rightarrow> game" where
  "initFood place g =
     (let g1 = g\<lparr>food := generate place AMOUNT_OF_FOOD\<rparr>
      in addGameObjects (map FoodObj (food g1)) g1)"

definition setTimeout :: "callback \<Rightarrow> nat \<Rightarrow> game \<Rightarrow> game" where
  "setTimeout cb ms g = g\<lparr>timeouts := timeouts g @ [(cb, ms)]\<rparr>"

definition spawnBug :: "bounding_box \<times> int \<Rightarrow> game \<Rightarrow> game" where
  "spawnBug a g = addGameObject (BugObj (spawn a)) g"

text \<open>One cycle of the spawn loop: the closure \<open>spawnBugRandomly\<close>. \<open>r1\<close> and \<open>r2\<close> are
  the two draws, \<open>mk k\<close> what the manager chooses for the \<open>k\<close>-th bug of the wave.\<close>

definition spawnBugRandomly ::
  "nat \<Rightarrow> nat \<Rightarrow> (nat \<Rightarrow> bounding_box \<times> int) \<Rightarrow> game \<Rightarrow> game" where
  "spawnBugRandomly r1 r2 mk g =
     (let g1 =
        (if isRunning g \<and> length (food g) > 0 then
           (let numBugsToSpawn = getRandomNumber MIN_BUGS_TO_SPAWN MAX_BUGS_TO_SPAWN r1
            in foldl (\<lambda>h k. spawnBug (mk k) h) g [0..<numBugsToSpawn])
         else g);
        spawnInterval = getRandomNumber MIN_SPAWN_INTERVAL MAX_SPAWN_INTERVAL r2
      in setTimeout SpawnBugRandomly spawnInterval g1)"

text \<open>\<open>_spawnBugsRandomly\<close> defines the closure and runs its first cycle at once.\<close>

definition spawnBugsRandomly ::
  "nat \<Rightarrow> nat \<Rightarrow> (nat \<Rightarrow> bounding_box \<times> int) \<Rightarrow> game \<Rightarrow> game" where
  "spawnBugsRandomly r1 r2 mk g = spawnBugRandomly r1 r2 mk g"

definition formatSeconds :: "nat \<Rightarrow> string" where
  "formatSeconds seconds =
     (let minutes = seconds div 60;
          remainingSeconds = seconds mod 60;
          paddedSeconds =
            (if remainingSeconds < 10 then CHR ''0'' # string_of_nat remainingSeconds
             else string_of_nat remainingSeconds)
      in string_of_nat minutes @ '':'' @ paddedSeconds)"

text \<open>One tick of the clock: the closure \<open>startTime\<close>.\<close>

definition startTime :: "game \<Rightarrow> game" where
  "startTime g =
     (let g1 =
        (if \<not> isPaused g then
           (let g2 = g\<lparr>time := time g + 1\<rparr>;
                g3 = g2\<lparr>timeText := ''Time: '' @ formatSeconds (time g2)\<rparr>
            in addToStore ''time'' (string_of_nat (time g3)) g3)
         else g)
      in setTimeout StartTime 1000 g1)"

text \<open>\<open>_startTimeElapsed\<close> defines the closure and runs its first tick at once.\<close>

definition startTimeElapsed :: "game \<Rightarrow> game" where
  "startTimeElapsed g = startTime g"

definition startButtonOnClick ::
  "(nat \<Rightarrow> food_item) \<Rightarrow> nat \<Rightarrow> nat \<Rightarrow> (nat \<Rightarrow> bounding_box \<times> int) \<Rightarrow> game \<Rightarrow> game" where
  "startButtonOnClick place r1 r2 mk g =
     (let g1 = start g;
          g2 = initFood place g1;
          g3 = spawnBugsRandomly r1 r2 mk g2;
          g4 = startTimeElapsed g3
      in g4\<lparr>welcomeHidden := True, gameHidden := False\<rparr>)"

definition pauseButtonOnClick :: "game \<Rightarrow> game" where
  "pauseButtonOnClick g =
     (let g1 = (if isPaused g then resume g else pause g)
      in if isPaused g1 then g1\<lparr>buttonSrc := ''assets/graphics/play.png''\<rparr>
         else if isRunning g1 then g1\<lparr>buttonSrc := ''assets/graphics/pause.png''\<rparr>
         else g1)"

definition setDead :: "nat \<Rightarrow> bug \<Rightarrow> game \<Rightarrow> game" where
  "setDead i b g = g\<lparr>gameObjects := (gameObjects g)[i := BugObj (b\<lparr>alive := False\<rparr>)]\<rparr>"

text \<open>The scoring of the bug \<open>b\<close> found at position \<open>i\<close>: lines 141 to 159.\<close>

definition scoreBug :: "nat \<Rightarrow> bug \<Rightarrow> game \<Rightarrow> game" where
  "scoreBug i b g =
     (let g1 = g\<lparr>sounds := sounds g + 1\<rparr>;
          pts = points b;
          g2 = g1\<lparr>score := score g1 + pts\<rparr>;
          g3 = addGameObject (PointObj pts (box_x (boundingBox b)) (box_y (boundingBox b))) g2;
          g4 = g3\<lparr>scoreText := ''Score: '' @ string_of_int (score g3)\<rparr>;
          g5 = addToStore ''score'' (string_of_int (score g4)) g4
      in setDead i b g5)"

text \<open>The body of the loop, for the entity at position \<open>i\<close>.\<close>

definition tapObject :: "int \<Rightarrow> int \<Rightarrow> nat \<Rightarrow> game \<Rightarrow> game" where
  "tapObject px py i g =
     (case gameObjects g ! i of
        BugObj b \<Rightarrow>
          if \<not> isOverlappingPoint (boundingBox b) px py then g
          else if \<not> alive b then g
          else scoreBug i b g
      | _ \<Rightarrow> g)"

text \<open>
  The loop visits the positions in order. The markers that the scoring appends lie
  behind every position that held an entity when the loop began; they are no bugs, so
  visiting them as well changes nothing (\<open>tapLoop_markers\<close> below).
\<close>

fun tapLoop :: "int \<Rightarrow> int \<Rightarrow> nat list \<Rightarrow> game \<Rightarrow> game" where
  "tapLoop px py [] g = g"
| "tapLoop px py (i # is) g = tapLoop px py is (tapObject px py i g)"

definition canvasOnMouseClick :: "int \<Rightarrow> int \<Rightarrow> game \<Rightarrow> game" where
  "canvasOnMouseClick px py g =
     (if \<not> isRunning g then g
      else tapLoop px py [0..<length (gameObjects g)] g)"

section \<open>The controller of the second source file\<close>

text \<open>
  The second source file holds another \<open>BugTap\<close>: it has no start button, makes its
  food and starts its spawn loop in the constructor, and its spawn cycle asks only
  whether the game is paused.
\<close>

definition part0_initGameObjects :: "(nat \<Rightarrow> food_item) \<Rightarrow> game \<Rightarrow> game" where
  "part0_initGameObjects place g =
     (let cursor = CursorObj;
          fd = generate place 8
      in addGameObjects (cursor # map FoodObj fd) g)"

definition part0_spawnBugRandomly ::
  "nat \<Rightarrow> nat \<Rightarrow> (nat \<Rightarrow> bounding_box \<times> int) \<Rightarrow> game \<Rightarrow> game" where
  "part0_spawnBugRandomly r1 r2 mk g =
     (let g1 =
        (if \<not> isPaused g then
           (let numBugsToSpawn = getRandomNumber MIN_BUGS_TO_SPAWN MAX_BUGS_TO_SPAWN r1
            in foldl (\<lambda>h k. spawnBug (mk k) h) g [0..<numBugsToSpawn])
         else g);
        spawnInterval = getRandomNumber MIN_SPAWN_INTERVAL MAX_SPAWN_INTERVAL r2
      in setTimeout SpawnBugRandomly spawnInterval g1)"

definition part0_spawnBugsRandomly ::
  "nat \<Rightarrow> nat \<Rightarrow> (nat \<Rightarrow> bounding_box \<times> int) \<Rightarrow> game \<Rightarrow> game" where
  "part0_spawnBugsRandomly r1 r2 mk g = part0_spawnBugRandomly r1 r2 mk g"

definition part0_BugTap_new ::
  "(nat \<Rightarrow> food_item) \<Rightarrow> nat \<Rightarrow> nat \<Rightarrow> (nat \<Rightarrow> bounding_box \<times> int) \<Rightarrow> game \<Rightarrow> game" where
  "part0_BugTap_new place r1 r2 mk env =
     part0_spawnBugsRandomly r1 r2 mk
       (part0_initGameObjects place
          (env\<lparr>mode := NotStarted, gameObjects := [], hostCalls := [], timeouts := []\<rparr>))"

section \<open>Sessions\<close>

text \<open>
  All work runs as callbacks on one timeline, one at a time: a session is a list of
  events, each handled to its end. A timer event stands for a timeout that fires; the
  model lets one fire at any moment, which covers every schedule of the host.
\<close>

datatype event =
    StartButtonClick "nat \<Rightarrow> food_item" nat nat "nat \<Rightarrow> bounding_box \<times> int"
  | PauseButtonClick
  | KeyDown string
  | MouseDown int int
  | SpawnTimeout nat nat "nat \<Rightarrow> bounding_box \<times> int"
  | TimeTimeout

fun handle :: "event \<Rightarrow> game \<Rightarrow> game" where
  "handle (StartButtonClick place r1 r2 mk) g = startButtonOnClick place r1 r2 mk g"
| "handle PauseButtonClick g = pauseButtonOnClick g"
| "handle (KeyDown code) g = (if code = ''Space'' then pauseButtonOnClick g else g)"
| "handle (MouseDown px py) g = canvasOnMouseClick px py g"
| "handle (SpawnTimeout r1 r2 mk) g = spawnBugRandomly r1 r2 mk g"
| "handle TimeTimeout g = startTime g"

fun run :: "event list \<Rightarrow> game \<Rightarrow> game" where
  "run [] g = g"
| "run (e # es) g = run es (handle e g)"

section \<open>What the claims speak of\<close>

text \<open>An entity is hit by a tap when it is a bug, is alive and its box holds the
  point.\<close>

definition isHit :: "int \<Rightarrow> int \<Rightarrow> game_object \<Rightarrow> bool" where
  "isHit px py ob =
     (case ob of BugObj b \<Rightarrow> isOverlappingPoint (boundingBox b) px py \<and> alive b
      | _ \<Rightarrow> False)"

definition isDeadBug :: "game_object \<Rightarrow> bool" where
  "isDeadBug ob = (case ob of BugObj b \<Rightarrow> \<not> alive b | _ \<Rightarrow> False)"

definition isBug :: "game_object \<Rightarrow> bool" where
  "isBug ob = (case ob of BugObj b \<Rightarrow> True | _ \<Rightarrow> False)"

definition bugOf :: "game_object \<Rightarrow> bug" where
  "bugOf ob =
     (case ob of BugObj b \<Rightarrow> b
      | _ \<Rightarrow> \<lparr>boundingBox = \<lparr>box_x = 0, box_y = 0, box_width = 0, box_height = 0\<rparr>,
              points = 0, alive = False\<rparr>)"

definition pointsOf :: "game_object \<Rightarrow> int" where
  "pointsOf ob = (case ob of BugObj b \<Rightarrow> points b | _ \<Rightarrow> 0)"

definition markerOf :: "game_object \<Rightarrow> game_object" where
  "markerOf ob =
     PointObj (points (bugOf ob)) (box_x (boundingBox (bugOf ob)))
       (box_y (boundingBox (bugOf ob)))"

definition markDead :: "game_object \<Rightarrow> game_object" where
  "markDead ob = (case ob of BugObj b \<Rightarrow> BugObj (b\<lparr>alive := False\<rparr>) | _ \<Rightarrow> ob)"

text \<open>The positions that a tap at \<open>(px, py)\<close> hits, in the order of the collection.\<close>

definition tapHits :: "int \<Rightarrow> int \<Rightarrow> game \<Rightarrow> nat list" where
  "tapHits px py g =
     (if isRunning g
      then filter (\<lambda>i. isHit px py (gameObjects g ! i)) [0..<length (gameObjects g)]
      else [])"

text \<open>The positions hit by one event, and by the events of a session, one after the
  other: only a tap hits.\<close>

definition hitsOf :: "event \<Rightarrow> game \<Rightarrow> nat list" where
  "hitsOf e g = (case e of MouseDown px py \<Rightarrow> tapHits px py g | _ \<Rightarrow> [])"

fun kills :: "event list \<Rightarrow> game \<Rightarrow> nat list" where
  "kills [] g = []"
| "kills (e # es) g = hitsOf e g @ kills es (handle e g)"

text \<open>The markers in the collection, and the writes of the score in the store.\<close>

definition isPoint :: "game_object \<Rightarrow> bool" where
  "isPoint ob = (case ob of PointObj p x y \<Rightarrow> True | _ \<Rightarrow> False)"

definition markers :: "game \<Rightarrow> nat" where
  "markers g = length (filter isPoint (gameObjects g))"

definition scoreWrites :: "game \<Rightarrow> nat" where
  "scoreWrites g = length (filter (\<lambda>kv. fst kv = ''score'') (store g))"

definition isStart :: "event \<Rightarrow> bool" where
  "isStart e = (case e of StartButtonClick place r1 r2 mk \<Rightarrow> True | _ \<Rightarrow> False)"

definition isTimer :: "event \<Rightarrow> bool" where
  "isTimer e = (case e of SpawnTimeout r1 r2 mk \<Rightarrow> True | TimeTimeout \<Rightarrow> True | _ \<Rightarrow> False)"

text \<open>What a tap leaves behind when it scores the bugs \<open>bf i\<close> at the positions \<open>hs\<close>,
  in this order: the bugs are dead, one marker per bug stands at the end of the
  collection, and the score, the sound count, the score text and the store have
  taken every bug in turn.\<close>

definition killAt :: "(nat \<Rightarrow> bug) \<Rightarrow> game_object list \<Rightarrow> nat list \<Rightarrow> game_object list" where
  "killAt bf xs hs = foldl (\<lambda>ys i. ys[i := BugObj ((bf i)\<lparr>alive := False\<rparr>)]) xs hs"

definition scoredAll :: "(nat \<Rightarrow> bug) \<Rightarrow> nat list \<Rightarrow> game \<Rightarrow> game" where
  "scoredAll bf hs g =
     g\<lparr>gameObjects := killAt bf (gameObjects g) hs @
          map (\<lambda>i. PointObj (points (bf i)) (box_x (boundingBox (bf i)))
                 (box_y (boundingBox (bf i)))) hs,
       score := score g + sum_list (map (\<lambda>i. points (bf i)) hs),
       sounds := sounds g + length hs,
       scoreText :=
         (if hs = [] then scoreText g
          else ''Score: '' @ string_of_int (score g + sum_list (map (\<lambda>i. points (bf i)) hs))),
       store := store g @
          map (\<lambda>k. (''score'',
                 string_of_int (score g + sum_list (map (\<lambda>i. points (bf i)) (take (Suc k) hs)))))
            [0..<length hs]\<rparr>"

section \<open>Concrete surroundings\<close>

text \<open>A page as a reload finds it: an earlier session has left its score and its time
  in the store.\<close>

definition page0 :: game where
  "page0 =
     \<lparr>mode = NotStarted, gameObjects = [], hostCalls = [], time = 0, score = 0,
      food = [], store = [(''score'', ''7''), (''time'', ''42'')], sounds = 0,
      timeouts = [], scoreText = ''Score: 0'', timeText = ''Time: 0:00'',
      buttonSrc = ''assets/graphics/pause.png'', welcomeHidden = False,
      gameHidden = True\<rparr>"

text \<open>A manager that puts every bug into the box from \<open>(0, 0)\<close> to \<open>(10, 10)\<close>, the
  \<open>k\<close>-th bug of a wave being worth \<open>k + 1\<close> points, and one that lays the food out
  in a row.\<close>

definition mk0 :: "nat \<Rightarrow> bounding_box \<times> int" where
  "mk0 k = (\<lparr>box_x = 0, box_y = 0, box_width = 10, box_height = 10\<rparr>, int k + 1)"

definition place0 :: "nat \<Rightarrow> food_item" where
  "place0 k = Food (int k) 0"

text \<open>A session that was started with a first wave of two bugs, which lie on top of
  each other.\<close>

definition started2 :: game where
  "started2 = startButtonOnClick place0 1 0 mk0 (BugTap_new page0)"

text \<open>The same session after a tap that scored both bugs.\<close>

definition tapped2 :: game where
  "tapped2 = canvasOnMouseClick 5 5 started2"

text \<open>A session that was started and then paused.\<close>

definition paused0 :: game where
  "paused0 = pauseButtonOnClick (startButtonOnClick place0 0 0 mk0 (BugTap_new page0))"

section \<open>Basic facts\<close>

lemma getRandomNumber_range:
  "lo \<le> hi \<Longrightarrow> lo \<le> getRandomNumber lo hi r \<and> getRandomNumber lo hi r \<le> hi"
proof -
  assume "lo \<le> hi"
  have "r mod (hi - lo + 1) < hi - lo + 1" by simp
  with \<open>lo \<le> hi\<close> show ?thesis unfolding getRandomNumber_def by linarith
qed

lemma string_of_nat_small: "n < 10 \<Longrightarrow> string_of_nat n = [digit n]"
  by (simp add: string_of_nat.simps)

lemma string_of_nat_two: "10 \<le> n \<Longrightarrow> n < 100 \<Longrightarrow> length (string_of_nat n) = 2"
  by (subst string_of_nat.simps) (simp add: string_of_nat_small)

lemma startTime_paused: "mode g = Paused \<Longrightarrow> startTime g = setTimeout StartTime 1000 g"
  by (simp add: startTime_def isPaused_def)

lemma startTime_unpaused:
  "mode g \<noteq> Paused \<Longrightarrow>
   startTime g =
     g\<lparr>time := time g + 1, timeText := ''Time: '' @ formatSeconds (time g + 1),
       store := store g @ [(''time'', string_of_nat (time g + 1))],
       timeouts := timeouts g @ [(StartTime, 1000)]\<rparr>"
  by (simp add: startTime_def isPaused_def Let_def addToStore_def setTimeout_def)

lemma mode_startTime: "mode (startTime g) = mode g"
  by (cases "mode g = Paused") (simp_all add: startTime_paused startTime_unpaused setTimeout_def)

lemma run_append: "run (es @ fs) g = run fs (run es g)"
  by (induction es arbitrary: g) simp_all

lemma ticks_unpaused:
  "mode g \<noteq> Paused \<Longrightarrow>
   mode (run (replicate n TimeTimeout) g) = mode g \<and>
   time (run (replicate n TimeTimeout) g) = time g + n \<and>
   (0 < n \<longrightarrow> timeText (run (replicate n TimeTimeout) g) = ''Time: '' @ formatSeconds (time g + n))"
proof (induction n)
  case 0
  show ?case by simp
next
  case (Suc n)
  let ?h = "run (replicate n TimeTimeout) g"
  have h: "mode ?h \<noteq> Paused" "time ?h = time g + n" "mode ?h = mode g"
    using Suc by simp_all
  have "replicate (Suc n) TimeTimeout = replicate n TimeTimeout @ [TimeTimeout]"
    by (simp add: replicate_append_same)
  then have "run (replicate (Suc n) TimeTimeout) g = startTime ?h"
    by (simp only: run_append run.simps handle.simps)
  then show ?case using h by (simp add: startTime_unpaused del: replicate_Suc)
qed

section \<open>The claims about the clock, the toggle and the idle tap\<close>

text \<open>
  C6. A pointer-down event that arrives while the game is not running (not started, or
  paused) does nothing: the handler returns the state it was given, so the score, every
  alive flag, the page and the store are as before, and no position is hit.
\<close>

theorem tap_when_not_running:
  assumes "mode g \<noteq> Running"
  shows "canvasOnMouseClick px py g = g \<and> tapHits px py g = []"
  using assms by (simp add: canvasOnMouseClick_def tapHits_def isRunning_def)

theorem tap_when_not_running_witness:
  "mode (BugTap_new page0) \<noteq> Running \<and>
   canvasOnMouseClick 3 4 (BugTap_new page0) = BugTap_new page0 \<and>
   tapHits 3 4 (BugTap_new page0) = []"
proof -
  have h: "mode (BugTap_new page0) \<noteq> Running"
    by (simp add: BugTap_new_def clearStore_def addGameObject_def)
  show ?thesis using h tap_when_not_running [OF h, of 3 4] by simp
qed

text \<open>
  C10. The pause button and the Space key run the same handler, and the handler calls
  \<open>resume()\<close> when the game is paused and \<open>pause()\<close> otherwise. It does not ask whether
  the game is running: before the game was ever started it calls \<open>pause()\<close>.
\<close>

theorem pause_toggle_calls:
  "handle PauseButtonClick g = pauseButtonOnClick g \<and>
   handle (KeyDown ''Space'') g = pauseButtonOnClick g \<and>
   hostCalls (pauseButtonOnClick g) =
     hostCalls g @ [if isPaused g then CallResume else CallPause] \<and>
   (mode g = NotStarted \<longrightarrow> hostCalls (pauseButtonOnClick g) = hostCalls g @ [CallPause])"
  by (simp add: pauseButtonOnClick_def isPaused_def isRunning_def pause_def resume_def Let_def)

theorem pause_toggle_calls_witness:
  "mode (BugTap_new page0) = NotStarted \<and>
   hostCalls (handle (KeyDown ''Space'') (BugTap_new page0)) = [CallPause]"
proof -
  have h: "mode (BugTap_new page0) = NotStarted" "hostCalls (BugTap_new page0) = []"
    by (simp_all add: BugTap_new_def clearStore_def addGameObject_def)
  show ?thesis using h pause_toggle_calls [of "BugTap_new page0"] by (simp add: isPaused_def)
qed

text \<open>
  C7. A tick that finds the game not paused adds one to the seconds, shows them as
  minutes, a colon and the seconds, the seconds with a leading zero below ten and so
  always two characters long, and writes the number itself to the store. After 65
  ticks of a game that is not paused, counted from zero, the time shown is \<open>1:05\<close>,
  behind the label \<open>Time: \<close> that the element carries.
\<close>

theorem tick_unpaused:
  assumes "mode g \<noteq> Paused"
  shows "time (startTime g) = time g + 1 \<and>
         timeText (startTime g) = ''Time: '' @ formatSeconds (time g + 1) \<and>
         store (startTime g) = store g @ [(''time'', string_of_nat (time g + 1))] \<and>
         formatSeconds s =
           string_of_nat (s div 60) @ '':'' @
             (if s mod 60 < 10 then ''0'' @ string_of_nat (s mod 60)
              else string_of_nat (s mod 60)) \<and>
         length (drop (length (string_of_nat (s div 60) @ '':'')) (formatSeconds s)) = 2 \<and>
         formatSeconds 65 = ''1:05'' \<and>
         (time g = 0 \<longrightarrow> timeText (run (replicate 65 TimeTimeout) g) = ''Time: 1:05'')"
proof -
  have fmt: "formatSeconds s =
           string_of_nat (s div 60) @ '':'' @
             (if s mod 60 < 10 then ''0'' @ string_of_nat (s mod 60)
              else string_of_nat (s mod 60))"
    by (simp add: formatSeconds_def Let_def)
  have two: "length (drop (length (string_of_nat (s div 60) @ '':'')) (formatSeconds s)) = 2"
  proof (cases "s mod 60 < 10")
    case True
    then show ?thesis by (simp add: fmt string_of_nat_small)
  next
    case False
    then have "10 \<le> s mod 60" "s mod 60 < 100" by simp_all
    then show ?thesis using False by (simp add: fmt string_of_nat_two)
  qed
  have f65: "formatSeconds 65 = ''1:05''" by code_simp
  have "time g = 0 \<longrightarrow> timeText (run (replicate 65 TimeTimeout) g) = ''Time: 1:05''"
    using ticks_unpaused [OF assms, of 65] f65 by simp
  then show ?thesis using assms fmt two f65 by (simp add: startTime_unpaused)
qed

theorem tick_unpaused_witness:
  "mode (BugTap_new page0) \<noteq> Paused \<and> time (BugTap_new page0) = 0 \<and>
   time (startTime (BugTap_new page0)) = 1 \<and>
   store (startTime (BugTap_new page0)) = [(''time'', ''1'')] \<and>
   timeText (run (replicate 65 TimeTimeout) (BugTap_new page0)) = ''Time: 1:05''"
proof -
  have h: "mode (BugTap_new page0) \<noteq> Paused" "time (BugTap_new page0) = 0"
    "store (BugTap_new page0) = []"
    by (simp_all add: BugTap_new_def clearStore_def addGameObject_def)
  have one: "string_of_nat 1 = ''1''" by code_simp
  show ?thesis using h one tick_unpaused [OF h(1)] by simp
qed

section \<open>The spawn loop and the pause\<close>

lemma spawn_fold:
  "foldl (\<lambda>h k. spawnBug (mk k) h) g ks =
     g\<lparr>gameObjects := gameObjects g @ map (\<lambda>k. BugObj (spawn (mk k))) ks\<rparr>"
  by (induction ks arbitrary: g) (simp_all add: spawnBug_def addGameObject_def)

lemma spawnBugRandomly_eq:
  "spawnBugRandomly r1 r2 mk g =
     g\<lparr>gameObjects := gameObjects g @
          (if mode g = Running \<and> food g \<noteq> []
           then map (\<lambda>k. BugObj (spawn (mk k)))
                  [0..<getRandomNumber MIN_BUGS_TO_SPAWN MAX_BUGS_TO_SPAWN r1]
           else []),
       timeouts := timeouts g @
          [(SpawnBugRandomly, getRandomNumber MIN_SPAWN_INTERVAL MAX_SPAWN_INTERVAL r2)]\<rparr>"
  by (simp add: spawnBugRandomly_def isRunning_def Let_def spawn_fold setTimeout_def)

lemma wave_size:
  "1 \<le> getRandomNumber MIN_BUGS_TO_SPAWN MAX_BUGS_TO_SPAWN r \<and>
   getRandomNumber MIN_BUGS_TO_SPAWN MAX_BUGS_TO_SPAWN r \<le> 3"
  using getRandomNumber_range [of MIN_BUGS_TO_SPAWN MAX_BUGS_TO_SPAWN r]
  by (simp add: MIN_BUGS_TO_SPAWN_def MAX_BUGS_TO_SPAWN_def)

lemma interval_size:
  "800 \<le> getRandomNumber MIN_SPAWN_INTERVAL MAX_SPAWN_INTERVAL r \<and>
   getRandomNumber MIN_SPAWN_INTERVAL MAX_SPAWN_INTERVAL r \<le> 1500"
  using getRandomNumber_range [of MIN_SPAWN_INTERVAL MAX_SPAWN_INTERVAL r]
  by (simp add: MIN_SPAWN_INTERVAL_def MAX_SPAWN_INTERVAL_def)

lemma isBug_spawned: "filter isBug (map (\<lambda>k. BugObj (spawn (mk k))) ks) = map (\<lambda>k. BugObj (spawn (mk k))) ks"
  by (induction ks) (simp_all add: isBug_def)

lemma paused_timer:
  "mode g = Paused \<Longrightarrow> isTimer e \<Longrightarrow> \<exists>cb d. handle e g = setTimeout cb d g"
  by (cases e) (auto simp: isTimer_def startTime_paused spawnBugRandomly_eq setTimeout_def)

lemma paused_timers:
  "mode g = Paused \<Longrightarrow> list_all isTimer evs \<Longrightarrow>
   \<exists>ts. length ts = length evs \<and> run evs g = g\<lparr>timeouts := timeouts g @ ts\<rparr>"
proof (induction evs arbitrary: g)
  case Nil
  show ?case by simp
next
  case (Cons e evs)
  obtain cb d where e: "handle e g = setTimeout cb d g"
    using paused_timer [of g e] Cons.prems by auto
  have "mode (handle e g) = Paused" using Cons.prems by (simp add: e setTimeout_def)
  then obtain ts where ts: "length ts = length evs"
      "run evs (handle e g) = (handle e g)\<lparr>timeouts := timeouts (handle e g) @ ts\<rparr>"
    using Cons.IH [of "handle e g"] Cons.prems by auto
  have "length ((cb, d) # ts) = length (e # evs)" using ts by simp
  moreover have "run (e # evs) g = g\<lparr>timeouts := timeouts g @ ((cb, d) # ts)\<rparr>"
    using ts(2) by (simp add: e setTimeout_def)
  ultimately show ?case by blast
qed

lemma toggle_paused:
  "mode g = Paused \<Longrightarrow>
   pauseButtonOnClick g =
     g\<lparr>mode := Running, hostCalls := hostCalls g @ [CallResume],
       buttonSrc := ''assets/graphics/pause.png''\<rparr>"
  by (simp add: pauseButtonOnClick_def isPaused_def isRunning_def resume_def Let_def)

text \<open>
  C5. A spawn cycle does two things. If and only if the game is running and there is
  food, it draws a number between \<open>MIN_BUGS_TO_SPAWN\<close> and \<open>MAX_BUGS_TO_SPAWN\<close> and adds
  that many bugs to the end of the collection: between one and three, and nothing
  else changes in the collection. Whether or not it spawned, it draws a delay between
  800 and 1500 and requests the next cycle after it.
\<close>

theorem spawn_cycle:
  "spawnBugRandomly r1 r2 mk g =
     g\<lparr>gameObjects := gameObjects g @
          (if mode g = Running \<and> food g \<noteq> []
           then map (\<lambda>k. BugObj (spawn (mk k)))
                  [0..<getRandomNumber MIN_BUGS_TO_SPAWN MAX_BUGS_TO_SPAWN r1]
           else []),
       timeouts := timeouts g @
          [(SpawnBugRandomly, getRandomNumber MIN_SPAWN_INTERVAL MAX_SPAWN_INTERVAL r2)]\<rparr> \<and>
   length (filter isBug (gameObjects (spawnBugRandomly r1 r2 mk g))) =
     length (filter isBug (gameObjects g)) +
       (if mode g = Running \<and> food g \<noteq> []
        then getRandomNumber MIN_BUGS_TO_SPAWN MAX_BUGS_TO_SPAWN r1 else 0) \<and>
   1 \<le> getRandomNumber MIN_BUGS_TO_SPAWN MAX_BUGS_TO_SPAWN r1 \<and>
   getRandomNumber MIN_BUGS_TO_SPAWN MAX_BUGS_TO_SPAWN r1 \<le> 3 \<and>
   800 \<le> getRandomNumber MIN_SPAWN_INTERVAL MAX_SPAWN_INTERVAL r2 \<and>
   getRandomNumber MIN_SPAWN_INTERVAL MAX_SPAWN_INTERVAL r2 \<le> 1500"
  using wave_size [of r1] interval_size [of r2]
  by (simp add: spawnBugRandomly_eq isBug_spawned)

theorem spawn_cycle_witness:
  "gameObjects (spawnBugRandomly 5 1000 mk0 (startButtonOnClick place0 0 0 mk0 (BugTap_new page0))) =
     gameObjects (startButtonOnClick place0 0 0 mk0 (BugTap_new page0)) @
       [BugObj (spawn (mk0 0)), BugObj (spawn (mk0 1)), BugObj (spawn (mk0 2))] \<and>
   timeouts (spawnBugRandomly 5 1000 mk0 (startButtonOnClick place0 0 0 mk0 (BugTap_new page0))) =
     timeouts (startButtonOnClick place0 0 0 mk0 (BugTap_new page0)) @ [(SpawnBugRandomly, 1099)]"
proof -
  let ?g = "startButtonOnClick place0 0 0 mk0 (BugTap_new page0)"
  have h: "mode ?g = Running" "food ?g \<noteq> []" by code_simp+
  have n: "getRandomNumber MIN_BUGS_TO_SPAWN MAX_BUGS_TO_SPAWN 5 = 3"
    "getRandomNumber MIN_SPAWN_INTERVAL MAX_SPAWN_INTERVAL 1000 = 1099"
    by code_simp+
  have u: "[0..<3] = [0, 1, 2]" by code_simp
  show ?thesis
    using spawn_cycle [of 5 1000 mk0 ?g] h n u by simp
qed

text \<open>
  C4. While the game is paused, a tick leaves the seconds, the time shown and the
  store as they are, and a spawn cycle adds no entity; yet every tick and every spawn
  cycle, in any mode, requests its next cycle. So after any number of timer events the
  paused game has the same seconds and the same entities, and one more timeout
  requested per event. Once the toggle has resumed it, the next tick counts again,
  and the next spawn cycle spawns again when there is food.
\<close>

theorem paused_cycles:
  assumes "mode g = Paused" and "list_all isTimer evs"
  shows "time (startTime g) = time g \<and> timeText (startTime g) = timeText g \<and>
         store (startTime g) = store g \<and>
         gameObjects (spawnBugRandomly r1 r2 mk g) = gameObjects g \<and>
         timeouts (startTime h) = timeouts h @ [(StartTime, 1000)] \<and>
         timeouts (spawnBugRandomly r1 r2 mk h) =
           timeouts h @
             [(SpawnBugRandomly, getRandomNumber MIN_SPAWN_INTERVAL MAX_SPAWN_INTERVAL r2)] \<and>
         mode (run evs g) = Paused \<and> time (run evs g) = time g \<and>
         timeText (run evs g) = timeText g \<and> gameObjects (run evs g) = gameObjects g \<and>
         length (timeouts (run evs g)) = length (timeouts g) + length evs \<and>
         mode (pauseButtonOnClick (run evs g)) = Running \<and>
         time (startTime (pauseButtonOnClick (run evs g))) = time g + 1 \<and>
         (food g \<noteq> [] \<longrightarrow>
            length (gameObjects (spawnBugRandomly r1 r2 mk (pauseButtonOnClick (run evs g)))) =
              length (gameObjects g) + getRandomNumber MIN_BUGS_TO_SPAWN MAX_BUGS_TO_SPAWN r1 \<and>
            1 \<le> getRandomNumber MIN_BUGS_TO_SPAWN MAX_BUGS_TO_SPAWN r1)"
proof -
  obtain ts where ts: "length ts = length evs" "run evs g = g\<lparr>timeouts := timeouts g @ ts\<rparr>"
    using paused_timers [OF assms] by blast
  let ?p = "run evs g"
  have p: "mode ?p = Paused" "time ?p = time g" "timeText ?p = timeText g"
    "gameObjects ?p = gameObjects g" "food ?p = food g"
    "length (timeouts ?p) = length (timeouts g) + length evs"
    using assms(1) ts(1) by (simp_all add: ts(2))
  let ?r = "pauseButtonOnClick ?p"
  have r: "mode ?r = Running" "time ?r = time g" "gameObjects ?r = gameObjects g"
    "food ?r = food g"
    using p by (simp_all add: toggle_paused [OF p(1)])
  have t: "timeouts (startTime h) = timeouts h @ [(StartTime, 1000)]"
    by (cases "mode h = Paused") (simp_all add: startTime_paused startTime_unpaused setTimeout_def)
  have s: "timeouts (spawnBugRandomly r1 r2 mk h) =
           timeouts h @
             [(SpawnBugRandomly, getRandomNumber MIN_SPAWN_INTERVAL MAX_SPAWN_INTERVAL r2)]"
    by (simp add: spawnBugRandomly_eq)
  have a: "time (startTime g) = time g \<and> timeText (startTime g) = timeText g \<and>
         store (startTime g) = store g \<and>
         gameObjects (spawnBugRandomly r1 r2 mk g) = gameObjects g"
    using assms(1) by (simp add: startTime_paused setTimeout_def spawnBugRandomly_eq)
  have b: "time (startTime ?r) = time g + 1"
    using r by (simp add: startTime_unpaused)
  have c: "food g \<noteq> [] \<longrightarrow>
            length (gameObjects (spawnBugRandomly r1 r2 mk ?r)) =
              length (gameObjects g) + getRandomNumber MIN_BUGS_TO_SPAWN MAX_BUGS_TO_SPAWN r1 \<and>
            1 \<le> getRandomNumber MIN_BUGS_TO_SPAWN MAX_BUGS_TO_SPAWN r1"
    using r wave_size [of r1] by (simp add: spawnBugRandomly_eq)
  show ?thesis using a t s p r(1) b c by blast
qed

theorem paused_cycles_witness:
  "mode paused0 = Paused \<and>
   list_all isTimer [TimeTimeout, SpawnTimeout 5 1000 mk0, TimeTimeout] \<and>
   time (run [TimeTimeout, SpawnTimeout 5 1000 mk0, TimeTimeout] paused0) = 1 \<and>
   gameObjects (run [TimeTimeout, SpawnTimeout 5 1000 mk0, TimeTimeout] paused0) =
     gameObjects paused0 \<and>
   time (startTime (pauseButtonOnClick
     (run [TimeTimeout, SpawnTimeout 5 1000 mk0, TimeTimeout] paused0))) = 2"
proof -
  have h1: "mode paused0 = Paused" by code_simp
  have h2: "list_all isTimer [TimeTimeout, SpawnTimeout 5 1000 mk0, TimeTimeout]"
    by (simp add: isTimer_def)
  have t: "time paused0 = 1" by code_simp
  show ?thesis
    using h1 h2 t paused_cycles [OF h1 h2] by simp
qed

section \<open>The tap\<close>

lemma tapObject_eq:
  "tapObject px py i g =
     (if isHit px py (gameObjects g ! i) then scoreBug i (bugOf (gameObjects g ! i)) g else g)"
  by (cases "gameObjects g ! i") (auto simp: tapObject_def isHit_def bugOf_def)

lemma scoreBug_eq:
  "i < length (gameObjects g) \<Longrightarrow>
   scoreBug i b g =
     g\<lparr>gameObjects := (gameObjects g)[i := BugObj (b\<lparr>alive := False\<rparr>)] @
          [PointObj (points b) (box_x (boundingBox b)) (box_y (boundingBox b))],
       score := score g + points b,
       sounds := sounds g + 1,
       scoreText := ''Score: '' @ string_of_int (score g + points b),
       store := store g @ [(''score'', string_of_int (score g + points b))]\<rparr>"
  by (simp add: scoreBug_def Let_def addGameObject_def addToStore_def setDead_def
      list_update_append1)

lemma length_killAt: "length (killAt bf xs hs) = length xs"
  unfolding killAt_def by (induction hs arbitrary: xs) simp_all

lemma killAt_snoc:
  "killAt bf xs (hs @ [i]) = (killAt bf xs hs)[i := BugObj ((bf i)\<lparr>alive := False\<rparr>)]"
  by (simp add: killAt_def)

lemma killAt_nth:
  "j < length xs \<Longrightarrow>
   killAt bf xs hs ! j = (if j \<in> set hs then BugObj ((bf j)\<lparr>alive := False\<rparr>) else xs ! j)"
proof (induction hs rule: rev_induct)
  case Nil
  show ?case by (simp add: killAt_def)
next
  case (snoc i hs)
  then show ?case
    by (cases "i = j") (auto simp: killAt_snoc nth_list_update length_killAt)
qed

lemma scoreAll_eq:
  "\<forall>i\<in>set hs. i < length (gameObjects g) \<Longrightarrow>
   foldl (\<lambda>h i. scoreBug i (bf i) h) g hs = scoredAll bf hs g"
proof (induction hs rule: rev_induct)
  case Nil
  show ?case by (simp add: killAt_def scoredAll_def)
next
  case (snoc i hs)
  have i: "i < length (gameObjects g)" using snoc.prems by simp
  have IH: "foldl (\<lambda>h i. scoreBug i (bf i) h) g hs = scoredAll bf hs g"
    using snoc by simp
  have len: "i < length (gameObjects (scoredAll bf hs g))"
    using i by (simp add: scoredAll_def length_killAt)
  have "foldl (\<lambda>h i. scoreBug i (bf i) h) g (hs @ [i]) = scoreBug i (bf i) (scoredAll bf hs g)"
    by (simp add: IH)
  also have "\<dots> = scoredAll bf (hs @ [i]) g"
    by (subst scoreBug_eq [OF len])
      (simp add: scoredAll_def killAt_snoc list_update_append1 length_killAt i add.assoc)
  finally show ?case .
qed

lemma tapLoop_hits:
  "\<forall>i\<in>set is. i < length (gameObjects g) \<Longrightarrow> distinct is \<Longrightarrow>
   tapLoop px py is g =
     foldl (\<lambda>h i. scoreBug i (bugOf (gameObjects g ! i)) h) g
       (filter (\<lambda>i. isHit px py (gameObjects g ! i)) is)"
proof (induction "is" arbitrary: g)
  case Nil
  show ?case by simp
next
  case (Cons i "is")
  show ?case
  proof (cases "isHit px py (gameObjects g ! i)")
    case False
    then show ?thesis using Cons by (simp add: tapObject_eq)
  next
    case True
    let ?b = "bugOf (gameObjects g ! i)"
    let ?g1 = "scoreBug i ?b g"
    have i: "i < length (gameObjects g)" using Cons.prems by simp
    have objs1: "gameObjects ?g1 = (gameObjects g)[i := BugObj (?b\<lparr>alive := False\<rparr>)] @
          [PointObj (points ?b) (box_x (boundingBox ?b)) (box_y (boundingBox ?b))]"
      by (simp add: scoreBug_eq [OF i])
    have same: "gameObjects ?g1 ! j = gameObjects g ! j" if "j \<in> set is" for j
    proof -
      have "j \<noteq> i" "j < length (gameObjects g)" using that Cons.prems by auto
      then show ?thesis by (simp add: objs1 nth_append)
    qed
    have bound: "\<forall>j\<in>set is. j < length (gameObjects ?g1)"
      using Cons.prems by (auto simp: objs1)
    have "tapLoop px py (i # is) g = tapLoop px py is ?g1"
      using True by (simp add: tapObject_eq)
    also have "\<dots> = foldl (\<lambda>h j. scoreBug j (bugOf (gameObjects ?g1 ! j)) h) ?g1
       (filter (\<lambda>j. isHit px py (gameObjects ?g1 ! j)) is)"
      using Cons.IH [OF bound] Cons.prems by simp
    also have "filter (\<lambda>j. isHit px py (gameObjects ?g1 ! j)) is =
               filter (\<lambda>j. isHit px py (gameObjects g ! j)) is"
      by (rule filter_cong) (simp_all add: same)
    also have "foldl (\<lambda>h j. scoreBug j (bugOf (gameObjects ?g1 ! j)) h) ?g1
                 (filter (\<lambda>j. isHit px py (gameObjects g ! j)) is) =
               foldl (\<lambda>h j. scoreBug j (bugOf (gameObjects g ! j)) h) ?g1
                 (filter (\<lambda>j. isHit px py (gameObjects g ! j)) is)"
      by (rule foldl_cong) (simp_all add: same)
    finally show ?thesis using True by simp
  qed
qed

lemma tapHits_running:
  "mode g = Running \<Longrightarrow>
   tapHits px py g = filter (\<lambda>i. isHit px py (gameObjects g ! i)) [0..<length (gameObjects g)]"
  by (simp add: tapHits_def isRunning_def)

lemma tapHits_bound: "i \<in> set (tapHits px py g) \<Longrightarrow> i < length (gameObjects g) \<and> isHit px py (gameObjects g ! i)"
  by (auto simp: tapHits_def split: if_splits)

lemma distinct_tapHits: "distinct (tapHits px py g)"
  by (simp add: tapHits_def)

lemma click_fold:
  "mode g = Running \<Longrightarrow>
   canvasOnMouseClick px py g =
     foldl (\<lambda>h i. scoreBug i (bugOf (gameObjects g ! i)) h) g (tapHits px py g)"
  by (simp add: canvasOnMouseClick_def isRunning_def tapHits_running tapLoop_hits)

lemma click_scoredAll:
  "canvasOnMouseClick px py g =
     scoredAll (\<lambda>i. bugOf (gameObjects g ! i)) (tapHits px py g) g"
proof (cases "mode g = Running")
  case True
  have "\<forall>i\<in>set (tapHits px py g). i < length (gameObjects g)"
    using tapHits_bound by blast
  then show ?thesis using True by (simp add: click_fold scoreAll_eq)
next
  case False
  then show ?thesis
    by (simp add: canvasOnMouseClick_def isRunning_def tapHits_def scoredAll_def killAt_def)
qed

lemma points_bugOf: "points (bugOf ob) = pointsOf ob"
  by (cases ob) (simp_all add: bugOf_def pointsOf_def)

lemma markDead_hit: "isHit px py ob \<Longrightarrow> BugObj ((bugOf ob)\<lparr>alive := False\<rparr>) = markDead ob"
  by (cases ob) (simp_all add: isHit_def bugOf_def markDead_def)

lemma killAt_hits:
  "killAt (\<lambda>i. bugOf (gameObjects g ! i)) (gameObjects g) (tapHits px py g) =
     (if isRunning g then map (\<lambda>ob. if isHit px py ob then markDead ob else ob) (gameObjects g)
      else gameObjects g)"
proof (cases "isRunning g")
  case False
  then show ?thesis by (simp add: tapHits_def killAt_def)
next
  case True
  have "killAt (\<lambda>i. bugOf (gameObjects g ! i)) (gameObjects g) (tapHits px py g) =
        map (\<lambda>ob. if isHit px py ob then markDead ob else ob) (gameObjects g)"
  proof (rule nth_equalityI)
    show "length (killAt (\<lambda>i. bugOf (gameObjects g ! i)) (gameObjects g) (tapHits px py g)) =
          length (map (\<lambda>ob. if isHit px py ob then markDead ob else ob) (gameObjects g))"
      by (simp add: length_killAt)
  next
    fix j
    assume "j < length (killAt (\<lambda>i. bugOf (gameObjects g ! i)) (gameObjects g) (tapHits px py g))"
    then have j: "j < length (gameObjects g)" by (simp add: length_killAt)
    have "j \<in> set (tapHits px py g) \<longleftrightarrow> isHit px py (gameObjects g ! j)"
      using True j by (auto simp: tapHits_def)
    then show "killAt (\<lambda>i. bugOf (gameObjects g ! i)) (gameObjects g) (tapHits px py g) ! j =
          map (\<lambda>ob. if isHit px py ob then markDead ob else ob) (gameObjects g) ! j"
      using j by (simp add: killAt_nth markDead_hit)
  qed
  then show ?thesis using True by simp
qed

lemma click_objects:
  "gameObjects (canvasOnMouseClick px py g) =
     (if isRunning g then map (\<lambda>ob. if isHit px py ob then markDead ob else ob) (gameObjects g)
      else gameObjects g) @
     map (\<lambda>i. markerOf (gameObjects g ! i)) (tapHits px py g)"
  by (simp add: click_scoredAll scoredAll_def killAt_hits markerOf_def)

lemma click_score:
  "score (canvasOnMouseClick px py g) =
     score g + (\<Sum>i\<leftarrow>tapHits px py g. pointsOf (gameObjects g ! i))"
  by (simp add: click_scoredAll scoredAll_def points_bugOf)

lemma click_sounds:
  "sounds (canvasOnMouseClick px py g) = sounds g + length (tapHits px py g)"
  by (simp add: click_scoredAll scoredAll_def)

lemma click_store:
  "store (canvasOnMouseClick px py g) =
     store g @
       map (\<lambda>k. (''score'',
              string_of_int (score g +
                (\<Sum>i\<leftarrow>take (Suc k) (tapHits px py g). pointsOf (gameObjects g ! i)))))
         [0..<length (tapHits px py g)]"
  by (simp add: click_scoredAll scoredAll_def points_bugOf)

lemma click_scoreText:
  "scoreText (canvasOnMouseClick px py g) =
     (if tapHits px py g = [] then scoreText g
      else ''Score: '' @ string_of_int (score (canvasOnMouseClick px py g)))"
  by (simp add: click_scoredAll scoredAll_def points_bugOf)

lemma click_rest:
  "mode (canvasOnMouseClick px py g) = mode g \<and> time (canvasOnMouseClick px py g) = time g \<and>
   food (canvasOnMouseClick px py g) = food g \<and>
   timeouts (canvasOnMouseClick px py g) = timeouts g \<and>
   hostCalls (canvasOnMouseClick px py g) = hostCalls g \<and>
   timeText (canvasOnMouseClick px py g) = timeText g"
  by (simp add: click_scoredAll scoredAll_def)

lemma tapObject_marker: "gameObjects g ! i = PointObj p x y \<Longrightarrow> tapObject px py i g = g"
  by (simp add: tapObject_def)

lemma tapLoop_no_hit:
  "\<forall>i\<in>set is. \<not> isHit px py (gameObjects g ! i) \<Longrightarrow> tapLoop px py is g = g"
  by (induction "is") (simp_all add: tapObject_eq)

text \<open>A scan that goes on over the markers which the tap itself has appended ends in
  the same state.\<close>

lemma tapLoop_markers:
  "tapLoop px py
     [length (gameObjects g)..<length (gameObjects (canvasOnMouseClick px py g))]
     (canvasOnMouseClick px py g) = canvasOnMouseClick px py g"
proof (rule tapLoop_no_hit, rule ballI)
  fix i
  assume "i \<in> set [length (gameObjects g)..<length (gameObjects (canvasOnMouseClick px py g))]"
  then have i: "length (gameObjects g) \<le> i"
    "i - length (gameObjects g) < length (tapHits px py g)"
    by (auto simp: click_objects split: if_splits)
  have "gameObjects (canvasOnMouseClick px py g) ! i =
        map (\<lambda>i. markerOf (gameObjects g ! i)) (tapHits px py g) ! (i - length (gameObjects g))"
    using i(1) by (simp add: click_objects nth_append)
  then show "\<not> isHit px py (gameObjects (canvasOnMouseClick px py g) ! i)"
    using i(2) by (simp add: markerOf_def isHit_def)
qed

text \<open>
  C1. A pointer-down event that arrives while the game is running scans the collection
  in its order and scores every entity that is a bug, is alive and holds the point in
  its box, and goes on after each match: the handler is the scoring of lines 141 to
  159, done for each hit position in turn. Afterwards every hit bug is dead, one
  marker per hit bug stands at the end of the collection in the same order, the score
  has grown by the point values of all of them, the sound was played once per bug and
  the store holds each running total. Two alive bugs under the same point are both
  scored by the one tap.
\<close>

theorem tap_scores_every_hit:
  assumes "mode g = Running"
  shows "canvasOnMouseClick px py g =
           foldl (\<lambda>h i. scoreBug i (bugOf (gameObjects g ! i)) h) g (tapHits px py g) \<and>
         tapHits px py g =
           filter (\<lambda>i. isHit px py (gameObjects g ! i)) [0..<length (gameObjects g)] \<and>
         gameObjects (canvasOnMouseClick px py g) =
           map (\<lambda>ob. if isHit px py ob then markDead ob else ob) (gameObjects g) @
           map (\<lambda>i. markerOf (gameObjects g ! i)) (tapHits px py g) \<and>
         score (canvasOnMouseClick px py g) =
           score g + (\<Sum>i\<leftarrow>tapHits px py g. pointsOf (gameObjects g ! i)) \<and>
         sounds (canvasOnMouseClick px py g) = sounds g + length (tapHits px py g) \<and>
         store (canvasOnMouseClick px py g) =
           store g @
             map (\<lambda>k. (''score'',
                    string_of_int (score g +
                      (\<Sum>i\<leftarrow>take (Suc k) (tapHits px py g). pointsOf (gameObjects g ! i)))))
               [0..<length (tapHits px py g)] \<and>
         scoreText (canvasOnMouseClick px py g) =
           (if tapHits px py g = [] then scoreText g
            else ''Score: '' @ string_of_int (score (canvasOnMouseClick px py g))) \<and>
         (\<forall>i<length (gameObjects g). isHit px py (gameObjects g ! i) \<longrightarrow>
            i \<in> set (tapHits px py g) \<and>
            isDeadBug (gameObjects (canvasOnMouseClick px py g) ! i))"
proof -
  have r: "isRunning g" using assms by (simp add: isRunning_def)
  have dead: "isDeadBug (gameObjects (canvasOnMouseClick px py g) ! i)"
    if "i < length (gameObjects g)" "isHit px py (gameObjects g ! i)" for i
  proof -
    have "gameObjects (canvasOnMouseClick px py g) ! i = markDead (gameObjects g ! i)"
      using that r by (simp add: click_objects nth_append)
    moreover have "isDeadBug (markDead (gameObjects g ! i))"
      using that(2) by (cases "gameObjects g ! i") (simp_all add: isHit_def markDead_def isDeadBug_def)
    ultimately show ?thesis by simp
  qed
  have mem: "i \<in> set (tapHits px py g)"
    if "i < length (gameObjects g)" "isHit px py (gameObjects g ! i)" for i
    using that assms by (simp add: tapHits_running)
  have objs: "gameObjects (canvasOnMouseClick px py g) =
           map (\<lambda>ob. if isHit px py ob then markDead ob else ob) (gameObjects g) @
           map (\<lambda>i. markerOf (gameObjects g ! i)) (tapHits px py g)"
    using r by (simp add: click_objects)
  show ?thesis
    using click_fold [OF assms] tapHits_running [OF assms] objs click_score click_sounds
      click_store click_scoreText dead mem
    by blast
qed

theorem tap_scores_every_hit_witness:
  "mode started2 = Running \<and>
   tapHits 5 5 started2 = [11, 12] \<and>
   score started2 = 0 \<and> score (canvasOnMouseClick 5 5 started2) = 3 \<and>
   sounds (canvasOnMouseClick 5 5 started2) = sounds started2 + 2 \<and>
   isDeadBug (gameObjects (canvasOnMouseClick 5 5 started2) ! 11) \<and>
   isDeadBug (gameObjects (canvasOnMouseClick 5 5 started2) ! 12)"
proof -
  have h: "mode started2 = Running" by code_simp
  have e: "tapHits 5 5 started2 = [11, 12]" "score started2 = 0"
    "pointsOf (gameObjects started2 ! 11) = 1" "pointsOf (gameObjects started2 ! 12) = 2"
    "length (gameObjects started2) = 13"
    "isHit 5 5 (gameObjects started2 ! 11)" "isHit 5 5 (gameObjects started2 ! 12)"
    by code_simp+
  note t = tap_scores_every_hit [OF h, of 5 5]
  have a: "\<forall>i<length (gameObjects started2). isHit 5 5 (gameObjects started2 ! i) \<longrightarrow>
             i \<in> set (tapHits 5 5 started2) \<and>
             isDeadBug (gameObjects (canvasOnMouseClick 5 5 started2) ! i)"
    using t by blast
  have d: "isDeadBug (gameObjects (canvasOnMouseClick 5 5 started2) ! 11)"
    "isDeadBug (gameObjects (canvasOnMouseClick 5 5 started2) ! 12)"
    using a [rule_format, of 11] a [rule_format, of 12] e by simp_all
  have "score (canvasOnMouseClick 5 5 started2) =
          score started2 + (\<Sum>i\<leftarrow>tapHits 5 5 started2. pointsOf (gameObjects started2 ! i))"
    "sounds (canvasOnMouseClick 5 5 started2) = sounds started2 + length (tapHits 5 5 started2)"
    using t by blast+
  then have s: "score (canvasOnMouseClick 5 5 started2) = 3"
    "sounds (canvasOnMouseClick 5 5 started2) = sounds started2 + 2"
    using e by simp_all
  show ?thesis using h e(1,2) s d by simp
qed

section \<open>What one event does\<close>

lemma startButtonOnClick_objects:
  "\<exists>new. gameObjects (startButtonOnClick place r1 r2 mk g) = gameObjects g @ new \<and>
     (\<forall>ob\<in>set new. \<not> isDeadBug ob \<and> \<not> isPoint ob)"
proof -
  let ?bugs = "if mode (start g) = Running \<and> generate place AMOUNT_OF_FOOD \<noteq> []
           then map (\<lambda>k. BugObj (spawn (mk k)))
                  [0..<getRandomNumber MIN_BUGS_TO_SPAWN MAX_BUGS_TO_SPAWN r1]
           else []"
  let ?new = "map FoodObj (generate place AMOUNT_OF_FOOD) @ ?bugs"
  have "gameObjects (startButtonOnClick place r1 r2 mk g) = gameObjects g @ ?new"
    by (simp add: startButtonOnClick_def spawnBugsRandomly_def startTimeElapsed_def Let_def initFood_def addGameObjects_def
        spawnBugRandomly_eq start_def startTime_def addToStore_def setTimeout_def)
  moreover have "\<forall>ob\<in>set ?new. \<not> isDeadBug ob \<and> \<not> isPoint ob"
    by (auto simp: isDeadBug_def isPoint_def spawn_def)
  ultimately show ?thesis by blast
qed

lemma startButtonOnClick_store:
  "\<exists>ws. store (startButtonOnClick place r1 r2 mk g) = store g @ ws \<and>
     (\<forall>kv\<in>set ws. fst kv \<noteq> ''score'')"
proof -
  let ?ws = "if mode (start g) = Paused then [] else [(''time'', string_of_nat (time g + 1))]"
  have "store (startButtonOnClick place r1 r2 mk g) = store g @ ?ws"
    by (simp add: startButtonOnClick_def spawnBugsRandomly_def startTimeElapsed_def Let_def initFood_def addGameObjects_def
        spawnBugRandomly_eq start_def startTime_def addToStore_def setTimeout_def isPaused_def)
  moreover have "\<forall>kv\<in>set ?ws. fst kv \<noteq> ''score''" by simp
  ultimately show ?thesis by blast
qed

lemma startButtonOnClick_same:
  "score (startButtonOnClick place r1 r2 mk g) = score g \<and>
   sounds (startButtonOnClick place r1 r2 mk g) = sounds g"
  by (simp add: startButtonOnClick_def spawnBugsRandomly_def startTimeElapsed_def Let_def initFood_def addGameObjects_def
        spawnBugRandomly_eq start_def startTime_def addToStore_def setTimeout_def isPaused_def)

lemma pauseButtonOnClick_same:
  "gameObjects (pauseButtonOnClick g) = gameObjects g \<and> store (pauseButtonOnClick g) = store g \<and>
   score (pauseButtonOnClick g) = score g \<and> sounds (pauseButtonOnClick g) = sounds g"
  by (simp add: pauseButtonOnClick_def Let_def pause_def resume_def)

lemma startTime_same:
  "gameObjects (startTime g) = gameObjects g \<and>
   score (startTime g) = score g \<and> sounds (startTime g) = sounds g"
  by (cases "mode g = Paused") (simp_all add: startTime_paused startTime_unpaused setTimeout_def)

lemma startTime_store:
  "\<exists>ws. store (startTime g) = store g @ ws \<and> (\<forall>kv\<in>set ws. fst kv \<noteq> ''score'')"
proof (cases "mode g = Paused")
  case True
  then have "store (startTime g) = store g @ []" by (simp add: startTime_paused setTimeout_def)
  then show ?thesis by fastforce
next
  case False
  then have "store (startTime g) = store g @ [(''time'', string_of_nat (time g + 1))]"
    by (simp add: startTime_unpaused)
  then show ?thesis by fastforce
qed

lemma handle_objects:
  "\<exists>new. gameObjects (handle e g) =
      killAt (\<lambda>i. bugOf (gameObjects g ! i)) (gameObjects g) (hitsOf e g) @
      map (\<lambda>i. markerOf (gameObjects g ! i)) (hitsOf e g) @ new \<and>
      (\<forall>ob\<in>set new. \<not> isDeadBug ob \<and> \<not> isPoint ob)"
proof (cases e)
  case (StartButtonClick place r1 r2 mk)
  then show ?thesis
    using startButtonOnClick_objects [of place r1 r2 mk g] by (simp add: hitsOf_def killAt_def)
next
  case PauseButtonClick
  then show ?thesis by (simp add: hitsOf_def killAt_def pauseButtonOnClick_same)
next
  case (KeyDown code)
  then show ?thesis by (simp add: hitsOf_def killAt_def pauseButtonOnClick_same)
next
  case (MouseDown px py)
  then show ?thesis
    by (simp add: hitsOf_def click_scoredAll scoredAll_def markerOf_def)
next
  case (SpawnTimeout r1 r2 mk)
  then show ?thesis
    by (auto simp: hitsOf_def killAt_def spawnBugRandomly_eq isDeadBug_def isPoint_def spawn_def)
next
  case TimeTimeout
  then show ?thesis by (simp add: hitsOf_def killAt_def startTime_same)
qed

lemma handle_score:
  "score (handle e g) = score g + (\<Sum>i\<leftarrow>hitsOf e g. pointsOf (gameObjects g ! i))"
  by (cases e)
    (simp_all add: hitsOf_def click_score startButtonOnClick_same pauseButtonOnClick_same
      startTime_same spawnBugRandomly_eq)

lemma handle_sounds: "sounds (handle e g) = sounds g + length (hitsOf e g)"
  by (cases e)
    (simp_all add: hitsOf_def click_sounds startButtonOnClick_same pauseButtonOnClick_same
      startTime_same spawnBugRandomly_eq)

lemma handle_scoreWrites: "scoreWrites (handle e g) = scoreWrites g + length (hitsOf e g)"
proof (cases e)
  case (StartButtonClick place r1 r2 mk)
  then show ?thesis
    using startButtonOnClick_store [of place r1 r2 mk g]
    by (auto simp: hitsOf_def scoreWrites_def)
next
  case PauseButtonClick
  then show ?thesis by (simp add: hitsOf_def scoreWrites_def pauseButtonOnClick_same)
next
  case (KeyDown code)
  then show ?thesis by (simp add: hitsOf_def scoreWrites_def pauseButtonOnClick_same)
next
  case (MouseDown px py)
  then show ?thesis
    by (simp add: hitsOf_def scoreWrites_def click_store filter_map comp_def)
next
  case (SpawnTimeout r1 r2 mk)
  then show ?thesis by (simp add: hitsOf_def scoreWrites_def spawnBugRandomly_eq)
next
  case TimeTimeout
  then show ?thesis using startTime_store [of g] by (auto simp: hitsOf_def scoreWrites_def)
qed

lemma hitsOf_hit:
  "i \<in> set (hitsOf e g) \<Longrightarrow>
   i < length (gameObjects g) \<and> \<not> isDeadBug (gameObjects g ! i) \<and>
   isBug (gameObjects g ! i) \<and>
   BugObj ((bugOf (gameObjects g ! i))\<lparr>alive := False\<rparr>) = markDead (gameObjects g ! i)"
proof (cases e)
  case (MouseDown px py)
  assume "i \<in> set (hitsOf e g)"
  then have h: "i < length (gameObjects g)" "isHit px py (gameObjects g ! i)"
    using MouseDown tapHits_bound [of i px py g] by (simp_all add: hitsOf_def)
  have "\<not> isDeadBug (gameObjects g ! i) \<and> isBug (gameObjects g ! i)"
    using h(2) by (cases "gameObjects g ! i") (simp_all add: isHit_def isDeadBug_def isBug_def)
  then show ?thesis using h markDead_hit [OF h(2)] by simp
qed (simp_all add: hitsOf_def)

lemma distinct_hitsOf: "distinct (hitsOf e g)"
  by (cases e) (simp_all add: hitsOf_def distinct_tapHits)

lemma isDeadBug_markDead: "isDeadBug (markDead ob) \<longleftrightarrow> isBug ob"
  by (cases ob) (simp_all add: isDeadBug_def markDead_def isBug_def)

lemma pointsOf_markDead: "pointsOf (markDead ob) = pointsOf ob"
  by (cases ob) (simp_all add: pointsOf_def markDead_def)

lemma handle_nth:
  assumes "i < length (gameObjects g)"
  shows "gameObjects (handle e g) ! i =
           (if i \<in> set (hitsOf e g) then markDead (gameObjects g ! i) else gameObjects g ! i)"
proof -
  obtain new where n: "gameObjects (handle e g) =
      killAt (\<lambda>i. bugOf (gameObjects g ! i)) (gameObjects g) (hitsOf e g) @
      map (\<lambda>i. markerOf (gameObjects g ! i)) (hitsOf e g) @ new"
    using handle_objects [of e g] by blast
  have "gameObjects (handle e g) ! i =
        killAt (\<lambda>i. bugOf (gameObjects g ! i)) (gameObjects g) (hitsOf e g) ! i"
    using assms by (simp add: n nth_append length_killAt)
  then show ?thesis using assms hitsOf_hit [of i e g] by (simp add: killAt_nth)
qed

lemma handle_length: "length (gameObjects g) \<le> length (gameObjects (handle e g))"
proof -
  obtain new where n: "gameObjects (handle e g) =
      killAt (\<lambda>i. bugOf (gameObjects g ! i)) (gameObjects g) (hitsOf e g) @
      map (\<lambda>i. markerOf (gameObjects g ! i)) (hitsOf e g) @ new"
    using handle_objects [of e g] by blast
  show ?thesis by (simp add: n length_killAt)
qed

lemma handle_new:
  assumes "length (gameObjects g) \<le> i" and "i < length (gameObjects (handle e g))"
  shows "\<not> isDeadBug (gameObjects (handle e g) ! i)"
proof -
  obtain new where n: "gameObjects (handle e g) =
      killAt (\<lambda>i. bugOf (gameObjects g ! i)) (gameObjects g) (hitsOf e g) @
      (map (\<lambda>i. markerOf (gameObjects g ! i)) (hitsOf e g) @ new)"
    and new: "\<forall>ob\<in>set new. \<not> isDeadBug ob \<and> \<not> isPoint ob"
    using handle_objects [of e g] by auto
  let ?tl = "map (\<lambda>i. markerOf (gameObjects g ! i)) (hitsOf e g) @ new"
  have "\<forall>ob\<in>set ?tl. \<not> isDeadBug ob"
    using new by (auto simp: markerOf_def isDeadBug_def)
  moreover have "gameObjects (handle e g) ! i = ?tl ! (i - length (gameObjects g))"
    using assms(1) by (simp add: n nth_append length_killAt)
  moreover have "i - length (gameObjects g) < length ?tl"
    using assms by (simp add: n length_killAt)
  ultimately show ?thesis by (metis nth_mem)
qed

lemma handle_markers: "markers (handle e g) = markers g + length (hitsOf e g)"
proof (cases e)
  case (StartButtonClick place r1 r2 mk)
  obtain new where "gameObjects (startButtonOnClick place r1 r2 mk g) = gameObjects g @ new"
     "\<forall>ob\<in>set new. \<not> isDeadBug ob \<and> \<not> isPoint ob"
    using startButtonOnClick_objects [of place r1 r2 mk g] by blast
  then show ?thesis using StartButtonClick by (simp add: hitsOf_def markers_def)
next
  case PauseButtonClick
  then show ?thesis by (simp add: hitsOf_def markers_def pauseButtonOnClick_same)
next
  case (KeyDown code)
  then show ?thesis by (simp add: hitsOf_def markers_def pauseButtonOnClick_same)
next
  case (MouseDown px py)
  have p: "isPoint (if isHit px py ob then markDead ob else ob) = isPoint ob" for ob
    by (cases ob) (simp_all add: isPoint_def markDead_def)
  have m: "isPoint (markerOf ob)" for ob
    by (simp add: isPoint_def markerOf_def)
  show ?thesis using MouseDown
    by (simp add: hitsOf_def markers_def click_objects filter_map comp_def p m)
next
  case (SpawnTimeout r1 r2 mk)
  have "filter isPoint (map (\<lambda>k. BugObj (spawn (mk k))) ks) = []" for ks
    by (induction ks) (simp_all add: isPoint_def)
  then show ?thesis using SpawnTimeout
    by (simp add: hitsOf_def markers_def spawnBugRandomly_eq)
next
  case TimeTimeout
  then show ?thesis by (simp add: hitsOf_def markers_def startTime_same)
qed

section \<open>What a session does\<close>

lemma run_length: "length (gameObjects g) \<le> length (gameObjects (run evs g))"
proof (induction evs arbitrary: g)
  case Nil
  show ?case by simp
next
  case (Cons e evs)
  show ?case using handle_length [of g e] Cons [of "handle e g"] by simp
qed

lemma run_dead:
  "i < length (gameObjects g) \<Longrightarrow> isDeadBug (gameObjects g ! i) \<Longrightarrow>
   gameObjects (run evs g) ! i = gameObjects g ! i"
proof (induction evs arbitrary: g)
  case Nil
  show ?case by simp
next
  case (Cons e evs)
  have "i \<notin> set (hitsOf e g)" using Cons.prems hitsOf_hit [of i e g] by blast
  then have same: "gameObjects (handle e g) ! i = gameObjects g ! i"
    using Cons.prems by (simp add: handle_nth)
  moreover have "i < length (gameObjects (handle e g))"
    using Cons.prems handle_length [of g e] by simp
  ultimately show ?case using Cons.IH [of "handle e g"] Cons.prems by simp
qed

lemma run_points:
  "i < length (gameObjects g) \<Longrightarrow>
   pointsOf (gameObjects (run evs g) ! i) = pointsOf (gameObjects g ! i)"
proof (induction evs arbitrary: g)
  case Nil
  show ?case by simp
next
  case (Cons e evs)
  have "pointsOf (gameObjects (handle e g) ! i) = pointsOf (gameObjects g ! i)"
    using Cons.prems by (simp add: handle_nth pointsOf_markDead)
  moreover have "i < length (gameObjects (handle e g))"
    using Cons.prems handle_length [of g e] by simp
  ultimately show ?case using Cons.IH [of "handle e g"] by simp
qed

lemma kills_not_dead:
  "i \<in> set (kills evs g) \<Longrightarrow> i < length (gameObjects g) \<Longrightarrow> \<not> isDeadBug (gameObjects g ! i)"
proof (induction evs arbitrary: g)
  case Nil
  then show ?case by simp
next
  case (Cons e evs)
  show ?case
  proof (cases "i \<in> set (hitsOf e g)")
    case True
    then show ?thesis using hitsOf_hit [of i e g] by blast
  next
    case False
    then have k: "i \<in> set (kills evs (handle e g))" using Cons.prems by simp
    have len: "i < length (gameObjects (handle e g))"
      using Cons.prems handle_length [of g e] by simp
    have "gameObjects (handle e g) ! i = gameObjects g ! i"
      using False Cons.prems by (simp add: handle_nth)
    then show ?thesis using Cons.IH [OF k len] by simp
  qed
qed

lemma kills_dead_after:
  "i \<in> set (kills evs g) \<Longrightarrow>
   i < length (gameObjects (run evs g)) \<and> isDeadBug (gameObjects (run evs g) ! i)"
proof (induction evs arbitrary: g)
  case Nil
  then show ?case by simp
next
  case (Cons e evs)
  show ?case
  proof (cases "i \<in> set (hitsOf e g)")
    case True
    then have i: "i < length (gameObjects g)" "isBug (gameObjects g ! i)"
      using hitsOf_hit [of i e g] by simp_all
    have len: "i < length (gameObjects (handle e g))"
      using i handle_length [of g e] by simp
    have "gameObjects (handle e g) ! i = markDead (gameObjects g ! i)"
      using True i by (simp add: handle_nth)
    then have dead: "isDeadBug (gameObjects (handle e g) ! i)"
      using i(2) by (simp add: isDeadBug_markDead)
    have "gameObjects (run evs (handle e g)) ! i = gameObjects (handle e g) ! i"
      using run_dead [OF len dead] .
    moreover have "i < length (gameObjects (run evs (handle e g)))"
      using len run_length [of "handle e g" evs] by simp
    ultimately show ?thesis using dead by simp
  next
    case False
    then have "i \<in> set (kills evs (handle e g))" using Cons.prems by simp
    then show ?thesis using Cons.IH by simp
  qed
qed

lemma kills_distinct: "distinct (kills evs g)"
proof (induction evs arbitrary: g)
  case Nil
  show ?case by simp
next
  case (Cons e evs)
  have "i \<notin> set (kills evs (handle e g))" if "i \<in> set (hitsOf e g)" for i
  proof
    assume k: "i \<in> set (kills evs (handle e g))"
    have i: "i < length (gameObjects g)" "isBug (gameObjects g ! i)"
      using that hitsOf_hit [of i e g] by simp_all
    have len: "i < length (gameObjects (handle e g))"
      using i handle_length [of g e] by simp
    have "isDeadBug (gameObjects (handle e g) ! i)"
      using that i by (simp add: handle_nth isDeadBug_markDead)
    then show False using kills_not_dead [OF k len] by simp
  qed
  then show ?case using Cons.IH [of "handle e g"] distinct_hitsOf [of e g] by auto
qed

lemma run_sounds: "sounds (run evs g) = sounds g + length (kills evs g)"
  by (induction evs arbitrary: g) (simp_all add: handle_sounds)

lemma run_markers: "markers (run evs g) = markers g + length (kills evs g)"
  by (induction evs arbitrary: g) (simp_all add: handle_markers)

lemma run_scoreWrites: "scoreWrites (run evs g) = scoreWrites g + length (kills evs g)"
  by (induction evs arbitrary: g) (simp_all add: handle_scoreWrites)

lemma run_score:
  "score (run evs g) = score g + (\<Sum>i\<leftarrow>kills evs g. pointsOf (gameObjects (run evs g) ! i))"
proof (induction evs arbitrary: g)
  case Nil
  show ?case by simp
next
  case (Cons e evs)
  have "map (\<lambda>i. pointsOf (gameObjects g ! i)) (hitsOf e g) =
        map (\<lambda>i. pointsOf (gameObjects (run (e # evs) g) ! i)) (hitsOf e g)"
  proof (rule map_cong [OF refl])
    fix i
    assume "i \<in> set (hitsOf e g)"
    then have "i < length (gameObjects g)" using hitsOf_hit [of i e g] by simp
    then show "pointsOf (gameObjects g ! i) = pointsOf (gameObjects (run (e # evs) g) ! i)"
      by (simp only: run_points)
  qed
  then have "score (handle e g) =
        score g + (\<Sum>i\<leftarrow>hitsOf e g. pointsOf (gameObjects (run (e # evs) g) ! i))"
    by (simp only: handle_score)
  then show ?case using Cons.IH [of "handle e g"] by simp
qed

lemma run_dead_iff:
  "i < length (gameObjects (run evs g)) \<Longrightarrow>
   isDeadBug (gameObjects (run evs g) ! i) \<longleftrightarrow>
     (i < length (gameObjects g) \<and> isDeadBug (gameObjects g ! i)) \<or> i \<in> set (kills evs g)"
proof (induction evs arbitrary: g)
  case Nil
  then show ?case by simp
next
  case (Cons e evs)
  let ?h = "handle e g"
  have IH: "isDeadBug (gameObjects (run evs ?h) ! i) \<longleftrightarrow>
     (i < length (gameObjects ?h) \<and> isDeadBug (gameObjects ?h ! i)) \<or> i \<in> set (kills evs ?h)"
    using Cons.IH [of ?h] Cons.prems by simp
  have step: "(i < length (gameObjects ?h) \<and> isDeadBug (gameObjects ?h ! i)) \<longleftrightarrow>
     (i < length (gameObjects g) \<and> isDeadBug (gameObjects g ! i)) \<or> i \<in> set (hitsOf e g)"
  proof (cases "i < length (gameObjects g)")
    case True
    then have "i < length (gameObjects ?h)" using handle_length [of g e] by simp
    then show ?thesis
      using True hitsOf_hit [of i e g] by (auto simp: handle_nth isDeadBug_markDead)
  next
    case False
    then show ?thesis
      using handle_new [of g i e] hitsOf_hit [of i e g] by auto
  qed
  show ?case using IH step by auto
qed

lemma run_score_mono:
  assumes "\<forall>ob\<in>set (gameObjects (run evs g)). 0 \<le> pointsOf ob"
  shows "score g \<le> score (run evs g)"
proof -
  have "0 \<le> pointsOf (gameObjects (run evs g) ! i)" if "i \<in> set (kills evs g)" for i
    using that kills_dead_after [of i evs g] assms by simp
  then have "0 \<le> (\<Sum>i\<leftarrow>kills evs g. pointsOf (gameObjects (run evs g) ! i))"
    by (intro sum_list_nonneg) auto
  then show ?thesis by (simp add: run_score)
qed

lemma tapObject_dead:
  "isDeadBug (gameObjects g ! i) \<Longrightarrow> tapObject px py i g = g"
  by (cases "gameObjects g ! i") (simp_all add: tapObject_def isDeadBug_def)

lemma new_fresh:
  "gameObjects (BugTap_new env) = [CursorObj] \<and> score (BugTap_new env) = 0 \<and>
   store (BugTap_new env) = [] \<and> mode (BugTap_new env) = NotStarted \<and>
   food (BugTap_new env) = [] \<and> time (BugTap_new env) = 0 \<and> sounds (BugTap_new env) = 0"
  by (simp add: BugTap_new_def clearStore_def addGameObject_def)

section \<open>The claims about scoring over a session\<close>

text \<open>
  C2. Over a whole session, from any state, no position is hit twice: the positions
  that the taps of the session score are pairwise different, and the sound, the
  markers, the writes of the score and the score itself account for exactly these
  hits, once each. Every bug that was scored is dead at the end. A bug that is dead
  stays as it is, is never hit again, and a tap that visits it changes nothing,
  wherever the tap lands.
\<close>

theorem scored_at_most_once:
  "distinct (kills evs g) \<and>
   sounds (run evs g) = sounds g + length (kills evs g) \<and>
   markers (run evs g) = markers g + length (kills evs g) \<and>
   scoreWrites (run evs g) = scoreWrites g + length (kills evs g) \<and>
   score (run evs g) =
     score g + (\<Sum>i\<leftarrow>kills evs g. pointsOf (gameObjects (run evs g) ! i)) \<and>
   (\<forall>i\<in>set (kills evs g).
      i < length (gameObjects (run evs g)) \<and> isDeadBug (gameObjects (run evs g) ! i)) \<and>
   (\<forall>i<length (gameObjects g). isDeadBug (gameObjects g ! i) \<longrightarrow>
      i \<notin> set (kills evs g) \<and>
      gameObjects (run evs g) ! i = gameObjects g ! i \<and>
      tapObject px py i (run evs g) = run evs g)"
proof -
  have a: "\<forall>i\<in>set (kills evs g).
      i < length (gameObjects (run evs g)) \<and> isDeadBug (gameObjects (run evs g) ! i)"
    using kills_dead_after by blast
  have b: "i \<notin> set (kills evs g) \<and>
      gameObjects (run evs g) ! i = gameObjects g ! i \<and>
      tapObject px py i (run evs g) = run evs g"
    if "i < length (gameObjects g)" "isDeadBug (gameObjects g ! i)" for i
  proof -
    have "gameObjects (run evs g) ! i = gameObjects g ! i" using run_dead [OF that] .
    moreover have "tapObject px py i (run evs g) = run evs g"
      using that(2) calculation by (simp add: tapObject_dead)
    moreover have "i \<notin> set (kills evs g)" using kills_not_dead that by blast
    ultimately show ?thesis by simp
  qed
  show ?thesis
    using kills_distinct run_sounds run_markers run_scoreWrites run_score a b by blast
qed

theorem scored_at_most_once_witness:
  "isDeadBug (gameObjects tapped2 ! 11) \<and>
   kills [SpawnTimeout 5 0 mk0, MouseDown 5 5, MouseDown 5 5] tapped2 = [15, 16, 17] \<and>
   sounds (run [SpawnTimeout 5 0 mk0, MouseDown 5 5, MouseDown 5 5] tapped2) = sounds tapped2 + 3 \<and>
   isDeadBug (gameObjects (run [SpawnTimeout 5 0 mk0, MouseDown 5 5, MouseDown 5 5] tapped2) ! 15) \<and>
   tapObject 5 5 11 (run [SpawnTimeout 5 0 mk0, MouseDown 5 5, MouseDown 5 5] tapped2) =
     run [SpawnTimeout 5 0 mk0, MouseDown 5 5, MouseDown 5 5] tapped2"
proof -
  let ?evs = "[SpawnTimeout 5 0 mk0, MouseDown 5 5, MouseDown 5 5]"
  have e: "isDeadBug (gameObjects tapped2 ! 11)" "kills ?evs tapped2 = [15, 16, 17]"
    "11 < length (gameObjects tapped2)"
    by code_simp+
  note t = scored_at_most_once [of ?evs tapped2 5 5]
  have s: "sounds (run ?evs tapped2) = sounds tapped2 + length (kills ?evs tapped2)"
    using t by blast
  have a: "\<forall>i\<in>set (kills ?evs tapped2).
      i < length (gameObjects (run ?evs tapped2)) \<and> isDeadBug (gameObjects (run ?evs tapped2) ! i)"
    using t by blast
  have b: "\<forall>i<length (gameObjects tapped2). isDeadBug (gameObjects tapped2 ! i) \<longrightarrow>
      i \<notin> set (kills ?evs tapped2) \<and>
      gameObjects (run ?evs tapped2) ! i = gameObjects tapped2 ! i \<and>
      tapObject 5 5 i (run ?evs tapped2) = run ?evs tapped2"
    using t by blast
  have "tapObject 5 5 11 (run ?evs tapped2) = run ?evs tapped2"
    using b [rule_format, OF e(3) e(1)] by simp
  moreover have "15 \<in> set (kills ?evs tapped2)"
    by (simp only: e(2)) simp
  then have "isDeadBug (gameObjects (run ?evs tapped2) ! 15)"
    using a by blast
  ultimately show ?thesis using e s by simp
qed

text \<open>
  C3. In a session that begins with the constructor, the score never goes down as
  long as no bug has a negative point value, which is what the data model of the
  specification says of bugs. At every moment the score is the sum of the point values
  of the bugs that the taps have scored, each once, and these are exactly the bugs
  that are dead.
\<close>

theorem score_monotone:
  assumes "\<forall>ob\<in>set (gameObjects (run (evs @ evs') (BugTap_new env))). 0 \<le> pointsOf ob"
  shows "score (run evs (BugTap_new env)) \<le> score (run (evs @ evs') (BugTap_new env)) \<and>
         score (run evs (BugTap_new env)) =
           (\<Sum>i\<leftarrow>kills evs (BugTap_new env).
              pointsOf (gameObjects (run evs (BugTap_new env)) ! i)) \<and>
         distinct (kills evs (BugTap_new env)) \<and>
         set (kills evs (BugTap_new env)) =
           {i. i < length (gameObjects (run evs (BugTap_new env))) \<and>
               isDeadBug (gameObjects (run evs (BugTap_new env)) ! i)}"
proof -
  let ?g = "BugTap_new env"
  have "\<forall>ob\<in>set (gameObjects (run evs' (run evs ?g))). 0 \<le> pointsOf ob"
    using assms by (simp add: run_append)
  then have m: "score (run evs ?g) \<le> score (run (evs @ evs') ?g)"
    using run_score_mono [of evs' "run evs ?g"] by (simp add: run_append)
  have s: "score (run evs ?g) =
           (\<Sum>i\<leftarrow>kills evs ?g. pointsOf (gameObjects (run evs ?g) ! i))"
    using run_score [of evs ?g] by (simp add: new_fresh)
  have d: "set (kills evs ?g) =
           {i. i < length (gameObjects (run evs ?g)) \<and> isDeadBug (gameObjects (run evs ?g) ! i)}"
  proof -
    have "\<not> isDeadBug (gameObjects ?g ! i)" if "i < length (gameObjects ?g)" for i
      using that by (simp add: new_fresh isDeadBug_def)
    then show ?thesis
      using run_dead_iff [of _ evs ?g] kills_dead_after [of _ evs ?g] by blast
  qed
  show ?thesis using m s d kills_distinct by blast
qed

theorem score_monotone_witness:
  "score (run [StartButtonClick place0 1 0 mk0, MouseDown 5 5] (BugTap_new page0)) = 3 \<and>
   score (run ([StartButtonClick place0 1 0 mk0, MouseDown 5 5] @
               [SpawnTimeout 5 0 mk0, MouseDown 5 5]) (BugTap_new page0)) = 9 \<and>
   kills [StartButtonClick place0 1 0 mk0, MouseDown 5 5] (BugTap_new page0) = [11, 12] \<and>
   score (run [StartButtonClick place0 1 0 mk0, MouseDown 5 5] (BugTap_new page0)) \<le>
     score (run ([StartButtonClick place0 1 0 mk0, MouseDown 5 5] @
                 [SpawnTimeout 5 0 mk0, MouseDown 5 5]) (BugTap_new page0))"
proof -
  let ?evs = "[StartButtonClick place0 1 0 mk0, MouseDown 5 5]"
  let ?evs' = "[SpawnTimeout 5 0 mk0, MouseDown 5 5]"
  have h: "\<forall>ob\<in>set (gameObjects (run (?evs @ ?evs') (BugTap_new page0))). 0 \<le> pointsOf ob"
    by code_simp
  have e: "score (run ?evs (BugTap_new page0)) = 3"
    "score (run (?evs @ ?evs') (BugTap_new page0)) = 9"
    "kills ?evs (BugTap_new page0) = [11, 12]"
    by code_simp+
  show ?thesis using score_monotone [OF h] e by simp
qed

section \<open>The claims about the start\<close>

lemma handle_store: "\<exists>ws. store (handle e g) = store g @ ws"
proof (cases e)
  case (StartButtonClick place r1 r2 mk)
  then show ?thesis using startButtonOnClick_store [of place r1 r2 mk g] by auto
next
  case (MouseDown px py)
  then show ?thesis by (simp add: click_store)
next
  case TimeTimeout
  then show ?thesis using startTime_store [of g] by auto
qed (simp_all add: pauseButtonOnClick_same spawnBugRandomly_eq)

lemma run_store: "\<exists>ws. store (run evs g) = store g @ ws"
proof (induction evs arbitrary: g)
  case Nil
  show ?case by simp
next
  case (Cons e evs)
  obtain ws where "store (handle e g) = store g @ ws" using handle_store by blast
  moreover obtain ws' where "store (run evs (handle e g)) = store (handle e g) @ ws'"
    using Cons.IH by blast
  ultimately show ?case by simp
qed

text \<open>
  C9, as the claim states it, fails. The store that an earlier session left is empty
  after the constructor alone, before any call of \<open>start()\<close>; and a click on the start
  button keeps what the store holds: after a start and a tap that scored, a second
  click on the start button leaves the writes of the score in place.
\<close>

theorem store_cleared_by_start_counterexample:
  "store page0 \<noteq> [] \<and> store (BugTap_new page0) = [] \<and> hostCalls (BugTap_new page0) = [] \<and>
   store (run [StartButtonClick place0 1 0 mk0, MouseDown 5 5] (BugTap_new page0)) =
     [(''time'', ''1''), (''score'', ''1''), (''score'', ''3'')] \<and>
   store (startButtonOnClick place0 1 0 mk0
           (run [StartButtonClick place0 1 0 mk0, MouseDown 5 5] (BugTap_new page0))) =
     [(''time'', ''1''), (''score'', ''1''), (''score'', ''3''), (''time'', ''2'')]"
  by code_simp

text \<open>
  C9, amended. It is the constructor that clears the store for a fresh session: after
  it the store is empty. The start handler does not clear it: it keeps every entry
  and adds the time that its first tick writes, and no event of a session removes an
  entry.
\<close>

theorem store_cleared_by_constructor:
  "store (BugTap_new env) = [] \<and>
   store (startButtonOnClick place r1 r2 mk g) =
     store g @ (if mode g = Paused then [] else [(''time'', string_of_nat (time g + 1))]) \<and>
   take (length (store g)) (store (run evs g)) = store g"
proof -
  have "store (startButtonOnClick place r1 r2 mk g) =
     store g @ (if mode g = Paused then [] else [(''time'', string_of_nat (time g + 1))])"
    by (simp add: startButtonOnClick_def spawnBugsRandomly_def startTimeElapsed_def Let_def initFood_def addGameObjects_def
        spawnBugRandomly_eq start_def startTime_def addToStore_def setTimeout_def isPaused_def)
  moreover obtain ws where "store (run evs g) = store g @ ws" using run_store by blast
  ultimately show ?thesis by (simp add: new_fresh)
qed

theorem store_cleared_by_constructor_witness:
  "store (BugTap_new page0) = [] \<and>
   store (startButtonOnClick place0 1 0 mk0 (BugTap_new page0)) = [(''time'', ''1'')] \<and>
   take (length (store tapped2))
     (store (run [StartButtonClick place0 1 0 mk0, TimeTimeout] tapped2)) = store tapped2"
proof -
  have e: "mode (BugTap_new page0) \<noteq> Paused" "time (BugTap_new page0) = 0"
    "string_of_nat 1 = ''1''"
    by code_simp+
  have a: "store (BugTap_new page0) = []"
    "store (startButtonOnClick place0 1 0 mk0 (BugTap_new page0)) =
       store (BugTap_new page0) @
         (if mode (BugTap_new page0) = Paused then []
          else [(''time'', string_of_nat (time (BugTap_new page0) + 1))])"
    using store_cleared_by_constructor [of page0 place0 1 0 mk0 "BugTap_new page0"] by blast+
  have b: "take (length (store tapped2))
     (store (run [StartButtonClick place0 1 0 mk0, TimeTimeout] tapped2)) = store tapped2"
    using store_cleared_by_constructor [of page0 place0 1 0 mk0 tapped2] by blast
  show ?thesis using a b e by simp
qed

lemma no_start_step:
  assumes "\<not> isStart e" and "food g = []" and "filter isBug (gameObjects g) = []"
  shows "food (handle e g) = [] \<and> filter isBug (gameObjects (handle e g)) = []"
proof (cases e)
  case (StartButtonClick place r1 r2 mk)
  then show ?thesis using assms(1) by (simp add: isStart_def)
next
  case PauseButtonClick
  then show ?thesis using assms by (simp add: pauseButtonOnClick_def Let_def pause_def resume_def)
next
  case (KeyDown code)
  then show ?thesis using assms by (simp add: pauseButtonOnClick_def Let_def pause_def resume_def)
next
  case (MouseDown px py)
  have "\<not> isHit px py ob" if "ob \<in> set (gameObjects g)" for ob
  proof -
    have "\<not> isBug ob" using assms(3) that by (simp add: filter_empty_conv)
    then show ?thesis by (cases ob) (simp_all add: isBug_def isHit_def)
  qed
  then have "tapHits px py g = []"
    by (simp add: tapHits_def filter_empty_conv)
  then have "canvasOnMouseClick px py g = g"
    by (simp add: click_scoredAll scoredAll_def killAt_def)
  then show ?thesis using MouseDown assms by simp
next
  case (SpawnTimeout r1 r2 mk)
  then show ?thesis using assms by (simp add: spawnBugRandomly_eq)
next
  case TimeTimeout
  have "food (startTime g) = food g"
    by (cases "mode g = Paused") (simp_all add: startTime_paused startTime_unpaused setTimeout_def)
  then show ?thesis using TimeTimeout assms by (simp add: startTime_same)
qed

lemma no_start_run:
  "list_all (\<lambda>e. \<not> isStart e) evs \<Longrightarrow> food g = [] \<Longrightarrow> filter isBug (gameObjects g) = [] \<Longrightarrow>
   food (run evs g) = [] \<and> filter isBug (gameObjects (run evs g)) = []"
proof (induction evs arbitrary: g)
  case Nil
  then show ?case by simp
next
  case (Cons e evs)
  have "food (handle e g) = [] \<and> filter isBug (gameObjects (handle e g)) = []"
    using no_start_step [of e g] Cons.prems by simp
  then show ?case using Cons.IH [of "handle e g"] Cons.prems by simp
qed

lemma part0_new_objects:
  "gameObjects (part0_BugTap_new place r1 r2 mk env) =
     CursorObj # map FoodObj (generate place 8) @
       map (\<lambda>k. BugObj (spawn (mk k)))
         [0..<getRandomNumber MIN_BUGS_TO_SPAWN MAX_BUGS_TO_SPAWN r1]"
  by (simp add: part0_BugTap_new_def part0_spawnBugsRandomly_def part0_spawnBugRandomly_def
      part0_initGameObjects_def isPaused_def Let_def spawn_fold setTimeout_def
      addGameObjects_def)

text \<open>In the controller of the second source file, too, the food is in the
  collection before any bug: its constructor makes the food first and runs its
  first spawn cycle afterwards.\<close>

lemma part0_food_first:
  "\<exists>bugs. gameObjects (part0_BugTap_new place r1 r2 mk env) =
            CursorObj # map FoodObj (generate place 8) @ bugs \<and>
          list_all isBug bugs"
proof -
  let ?bugs = "map (\<lambda>k. BugObj (spawn (mk k)))
         [0..<getRandomNumber MIN_BUGS_TO_SPAWN MAX_BUGS_TO_SPAWN r1]"
  have "list_all isBug ?bugs" by (simp add: list_all_iff isBug_def)
  then show ?thesis using part0_new_objects [of place r1 r2 mk env] by blast
qed

lemma startButtonOnClick_food_first:
  "food (startButtonOnClick place r1 r2 mk g) = generate place AMOUNT_OF_FOOD \<and>
   gameObjects (startButtonOnClick place r1 r2 mk g) =
     gameObjects g @ map FoodObj (generate place AMOUNT_OF_FOOD) @
       (if mode (start g) = Running
        then map (\<lambda>k. BugObj (spawn (mk k)))
               [0..<getRandomNumber MIN_BUGS_TO_SPAWN MAX_BUGS_TO_SPAWN r1]
        else [])"
proof -
  have ne: "generate place AMOUNT_OF_FOOD \<noteq> []"
    by (simp add: generate_def AMOUNT_OF_FOOD_def)
  have t: "food (startTime h) = food h \<and> gameObjects (startTime h) = gameObjects h" for h
    by (cases "mode h = Paused") (simp_all add: startTime_paused startTime_unpaused setTimeout_def)
  show ?thesis
    using ne
    by (simp add: startButtonOnClick_def spawnBugsRandomly_def startTimeElapsed_def Let_def t
        initFood_def addGameObjects_def spawnBugRandomly_eq start_def)
qed

text \<open>
  C8. Before the start handler has made the food and handed it on, no bug is ever
  spawned, however many spawn cycles run: in a session that begins with the
  constructor and holds no click on the start button, whatever else happens, the
  collection holds no bug and the food list is empty. The constructor makes no food
  and requests no timeout, and a spawn cycle that finds no food adds nothing. The
  start handler makes the food before it runs the first spawn cycle, so the food
  stands in the collection before the first bug.
\<close>

theorem no_spawn_before_start:
  assumes "list_all (\<lambda>e. \<not> isStart e) evs"
  shows "filter isBug (gameObjects (run evs (BugTap_new env))) = [] \<and>
         food (run evs (BugTap_new env)) = [] \<and>
         food (BugTap_new env) = [] \<and> timeouts (BugTap_new env) = [] \<and>
         (food g = [] \<longrightarrow> gameObjects (spawnBugRandomly r1 r2 mk g) = gameObjects g) \<and>
         food (startButtonOnClick place r1 r2 mk g) = generate place AMOUNT_OF_FOOD \<and>
         gameObjects (startButtonOnClick place r1 r2 mk g) =
           gameObjects g @ map FoodObj (generate place AMOUNT_OF_FOOD) @
             (if mode (start g) = Running
              then map (\<lambda>k. BugObj (spawn (mk k)))
                     [0..<getRandomNumber MIN_BUGS_TO_SPAWN MAX_BUGS_TO_SPAWN r1]
              else [])"
proof -
  have f: "food (BugTap_new env) = []" "filter isBug (gameObjects (BugTap_new env)) = []"
    "timeouts (BugTap_new env) = []"
    by (simp_all add: BugTap_new_def clearStore_def addGameObject_def isBug_def)
  have r: "food (run evs (BugTap_new env)) = [] \<and>
           filter isBug (gameObjects (run evs (BugTap_new env))) = []"
    using no_start_run [OF assms f(1,2)] .
  have c: "food g = [] \<longrightarrow> gameObjects (spawnBugRandomly r1 r2 mk g) = gameObjects g"
    by (simp add: spawnBugRandomly_eq)
  show ?thesis
    using r f c startButtonOnClick_food_first [of place r1 r2 mk g] by blast
qed

theorem no_spawn_before_start_witness:
  "list_all (\<lambda>e. \<not> isStart e)
     [SpawnTimeout 5 0 mk0, PauseButtonClick, SpawnTimeout 1 7 mk0, KeyDown ''Space'',
      SpawnTimeout 2 9 mk0, MouseDown 5 5, TimeTimeout] \<and>
   filter isBug (gameObjects (run
     [SpawnTimeout 5 0 mk0, PauseButtonClick, SpawnTimeout 1 7 mk0, KeyDown ''Space'',
      SpawnTimeout 2 9 mk0, MouseDown 5 5, TimeTimeout] (BugTap_new page0))) = [] \<and>
   food (run
     [SpawnTimeout 5 0 mk0, PauseButtonClick, SpawnTimeout 1 7 mk0, KeyDown ''Space'',
      SpawnTimeout 2 9 mk0, MouseDown 5 5, TimeTimeout] (BugTap_new page0)) = []"
proof -
  have h: "list_all (\<lambda>e. \<not> isStart e)
     [SpawnTimeout 5 0 mk0, PauseButtonClick, SpawnTimeout 1 7 mk0, KeyDown ''Space'',
      SpawnTimeout 2 9 mk0, MouseDown 5 5, TimeTimeout]"
    by (simp add: isStart_def)
  show ?thesis using h no_spawn_before_start [OF h, of page0] by simp
qed

end
